theory Spec2Isabelle
  imports Main "HOL-Library.List_Lexorder"
begin

section \<open>Strings\<close>

text \<open>
  A JavaScript string is a finite sequence of UTF-16 code units. A code unit is modelled
  by its number, a string by the list of its code units. The order on strings that
  \<^verbatim>\<open>Array.prototype.sort()\<close> uses without a comparator is the lexicographic order on
  code units, which is the order that the library theory \<open>List_Lexorder\<close> puts on \<open>nat list\<close>.
\<close>

type_synonym jsstring = "nat list"

definition lit :: "string \<Rightarrow> jsstring" where
  "lit s = map of_char s"

text \<open>The code units that \<^verbatim>\<open>String.prototype.trim\<close> removes: WhiteSpace and LineTerminator.\<close>

definition is_ws :: "nat \<Rightarrow> bool" where
  "is_ws c \<longleftrightarrow>
     c = 9 \<or> c = 10 \<or> c = 11 \<or> c = 12 \<or> c = 13 \<or> c = 32 \<or> c = 160 \<or> c = 5760 \<or>
     (8192 \<le> c \<and> c \<le> 8202) \<or> c = 8232 \<or> c = 8233 \<or> c = 8239 \<or> c = 8287 \<or>
     c = 12288 \<or> c = 65279"

definition trim :: "jsstring \<Rightarrow> jsstring" where
  "trim s = rev (dropWhile is_ws (rev (dropWhile is_ws s)))"

definition startsWith :: "jsstring \<Rightarrow> jsstring \<Rightarrow> bool" where
  "startsWith s p \<longleftrightarrow> take (length p) s = p"

text \<open>
  \<^verbatim>\<open>s.split(sep)\<close> for a string separator that is not empty (the code splits at
  \<^verbatim>\<open>"|||"\<close> only): the pieces between the occurrences of \<open>sep\<close>, found from left to
  right without overlap. \<open>cur\<close> is the piece being read. When the
  separator matches at \<open>x # xs\<close> it is not empty, so dropping it from \<open>x # xs\<close> is
  dropping one code unit less from \<open>xs\<close>.
\<close>

fun split_str :: "jsstring \<Rightarrow> jsstring \<Rightarrow> jsstring \<Rightarrow> jsstring list" where
  "split_str sep cur [] = [cur]"
| "split_str sep cur (x # xs) =
     (if sep \<noteq> [] \<and> take (length sep) (x # xs) = sep
      then cur # split_str sep [] (drop (length sep - 1) xs)
      else split_str sep (cur @ [x]) xs)"

definition split :: "jsstring \<Rightarrow> jsstring \<Rightarrow> jsstring list" where
  "split s sep = split_str sep [] s"

text \<open>\<^verbatim>\<open>s.split(/[...]/g)\<close> for a character class: every code unit of the class separates.\<close>

fun split_class_from :: "(nat \<Rightarrow> bool) \<Rightarrow> jsstring \<Rightarrow> jsstring \<Rightarrow> jsstring list" where
  "split_class_from P cur [] = [cur]"
| "split_class_from P cur (x # xs) =
     (if P x then cur # split_class_from P [] xs else split_class_from P (cur @ [x]) xs)"

definition split_class :: "jsstring \<Rightarrow> (nat \<Rightarrow> bool) \<Rightarrow> jsstring list" where
  "split_class s P = split_class_from P [] s"

section \<open>Map, Set and the library calls\<close>

text \<open>
  A JavaScript \<^verbatim>\<open>Map\<close> keeps its entries in insertion order; setting a key that is present
  changes the value in place. It is an association list with distinct keys.
\<close>

type_synonym ('k, 'v) jsmap = "('k \<times> 'v) list"

fun map_get :: "('k, 'v) jsmap \<Rightarrow> 'k \<Rightarrow> 'v option" where
  "map_get [] k = None"
| "map_get ((k', v) # m) k = (if k' = k then Some v else map_get m k)"

fun map_set :: "('k, 'v) jsmap \<Rightarrow> 'k \<Rightarrow> 'v \<Rightarrow> ('k, 'v) jsmap" where
  "map_set [] k v = [(k, v)]"
| "map_set ((k', v') # m) k v = (if k' = k then (k', v) # m else (k', v') # map_set m k v)"

definition new_Map :: "('k \<times> 'v) list \<Rightarrow> ('k, 'v) jsmap" where
  "new_Map kvs = foldl (\<lambda>m (k, v). map_set m k v) [] kvs"

text \<open>A \<^verbatim>\<open>Set\<close> keeps its elements in insertion order, each once.\<close>

definition set_add :: "'a list \<Rightarrow> 'a \<Rightarrow> 'a list" where
  "set_add s x = (if x \<in> set s then s else s @ [x])"

definition new_Set :: "'a list \<Rightarrow> 'a list" where
  "new_Set xs = foldl set_add [] xs"

definition has :: "'a list \<Rightarrow> 'a \<Rightarrow> bool" where
  "has s x \<longleftrightarrow> x \<in> set s"

text \<open>
  \<^verbatim>\<open>d3.rollup(values, reduce, key)\<close>: the values are grouped by key into a map, the groups in
  the order in which their keys are first seen and each group in the order of the values;
  then every group is replaced by \<open>reduce\<close> of it.
\<close>

definition group_push :: "('k, 'a list) jsmap \<Rightarrow> 'k \<Rightarrow> 'a \<Rightarrow> ('k, 'a list) jsmap" where
  "group_push groups k x =
     (case map_get groups k of
        Some g \<Rightarrow> map_set groups k (g @ [x])
      | None \<Rightarrow> map_set groups k [x])"

definition rollup :: "'a list \<Rightarrow> ('a list \<Rightarrow> 'r) \<Rightarrow> ('a \<Rightarrow> 'k) \<Rightarrow> ('k, 'r) jsmap" where
  "rollup vals reduce key =
     map (\<lambda>(k, g). (k, reduce g)) (foldl (\<lambda>groups x. group_push groups (key x) x) [] vals)"

text \<open>\<^verbatim>\<open>d3.descending(a, b)\<close> on numbers, as a comparator.\<close>

definition descending :: "nat \<Rightarrow> nat \<Rightarrow> int" where
  "descending a b = (if b < a then - 1 else if b > a then 1 else 0)"

text \<open>
  \<^verbatim>\<open>Array.prototype.sort(cmp)\<close> is a stable sort: elements that compare equal keep their
  order. Insertion from the right, before the first element that is not smaller.
\<close>

fun insort_by :: "('a \<Rightarrow> 'a \<Rightarrow> int) \<Rightarrow> 'a \<Rightarrow> 'a list \<Rightarrow> 'a list" where
  "insort_by cmp x [] = [x]"
| "insort_by cmp x (y # ys) = (if cmp x y \<le> 0 then x # y # ys else y # insort_by cmp x ys)"

definition sort_by :: "('a \<Rightarrow> 'a \<Rightarrow> int) \<Rightarrow> 'a list \<Rightarrow> 'a list" where
  "sort_by cmp xs = foldr (insort_by cmp) xs []"

text \<open>
  \<^verbatim>\<open>xs.slice(0, n)\<close> for an integer \<open>n\<close>: the first \<open>n\<close> elements, and for a negative \<open>n\<close>
  all but the last \<open>- n\<close>.
\<close>

definition slice0 :: "'a list \<Rightarrow> int \<Rightarrow> 'a list" where
  "slice0 xs n = (if n < 0 then take (nat (int (length xs) + n)) xs else take (nat n) xs)"

section \<open>The rows\<close>

text \<open>
  \<^verbatim>\<open>type AthleteRow = { country?: string; disciplines?: string; gender?: string }\<close>:
  an absent field is \<open>None\<close>.
\<close>

record AthleteRow =
  country :: "jsstring option"
  disciplines :: "jsstring option"
  gender :: "jsstring option"

record CleanedRow =
  c_country :: jsstring
  c_disciplineRaw :: jsstring
  c_gender :: jsstring

record ExplodedRow =
  e_country :: jsstring
  e_discipline :: jsstring
  e_gender :: jsstring

text \<open>A link by names, as \<^verbatim>\<open>linksNamed\<close> holds it. Destructuring an array that is too short
  leaves \<^verbatim>\<open>undefined\<close>, which is \<open>None\<close>.\<close>

record NamedLink =
  l_source :: "jsstring option"
  l_target :: "jsstring option"
  l_value :: nat

text \<open>A link by indices. \<^verbatim>\<open>idx.get(...)!\<close> is \<^verbatim>\<open>undefined\<close> for a name that is not a node:
  the \<^verbatim>\<open>!\<close> is a compile-time assertion and checks nothing when the code runs.\<close>

record Link =
  source :: "nat option"
  target :: "nat option"
  "value" :: nat

record Node =
  name :: jsstring

record FlowGraph =
  nodes :: "Node list"
  links :: "Link list"

datatype error = TypeError

section \<open>The helpers of both Sankey charts\<close>

text \<open>\<^verbatim>\<open>clean(v, fallback)\<close>: \<^verbatim>\<open>(v ?? "").toString().trim()\<close>, or the fallback when that is empty.\<close>

definition clean :: "jsstring option \<Rightarrow> jsstring \<Rightarrow> jsstring" where
  "clean v fallback =
     (let s = trim (case v of None \<Rightarrow> [] | Some x \<Rightarrow> x)
      in if length s \<noteq> 0 then s else fallback)"

text \<open>The separators of \<^verbatim>\<open>/[,;|/]/g\<close>: comma, semicolon, pipe, slash.\<close>

definition is_sep :: "nat \<Rightarrow> bool" where
  "is_sep c \<longleftrightarrow> c = 44 \<or> c = 59 \<or> c = 124 \<or> c = 47"

definition splitDisciplines :: "jsstring \<Rightarrow> jsstring list" where
  "splitDisciplines s =
     (let parts = filter (\<lambda>x. x \<noteq> []) (map trim (split_class s is_sep))
      in if length parts \<noteq> 0 then parts else [s])"

text \<open>A value used as a condition: \<^verbatim>\<open>null\<close>, \<^verbatim>\<open>undefined\<close> and the empty string are false.\<close>

definition truthy :: "jsstring option \<Rightarrow> bool" where
  "truthy v = (case v of None \<Rightarrow> False | Some s \<Rightarrow> s \<noteq> [])"

section \<open>The stages of the graph computation\<close>

definition cleaned :: "AthleteRow list \<Rightarrow> CleanedRow list" where
  "cleaned data =
     map (\<lambda>d. \<lparr>c_country = clean (country d) (lit ''Unknown Country''),
               c_disciplineRaw = clean (disciplines d) (lit ''Unknown Discipline''),
               c_gender = clean (gender d) (lit ''Unknown'')\<rparr>) data"

text \<open>
  \<^verbatim>\<open>new Set(Array.from(counts, ([k, v]) => ({k, v})).sort((a, b) => d3.descending(a.v, b.v))
  .slice(0, n).map((d) => d.k))\<close>
\<close>

definition topSet :: "(jsstring, nat) jsmap \<Rightarrow> int \<Rightarrow> jsstring list" where
  "topSet counts n =
     new_Set (map fst (slice0 (sort_by (\<lambda>a b. descending (snd a) (snd b)) counts) n))"

definition countryCounts :: "CleanedRow list \<Rightarrow> (jsstring, nat) jsmap" where
  "countryCounts rows = rollup rows length c_country"

definition topCountrySet :: "CleanedRow list \<Rightarrow> int \<Rightarrow> jsstring list" where
  "topCountrySet rows topCountries = topSet (countryCounts rows) topCountries"

text \<open>Homework 3, lines 54 to 70: the focus filter, and the top countries only without a focus.\<close>

definition base :: "CleanedRow list \<Rightarrow> jsstring option \<Rightarrow> CleanedRow list" where
  "base rows selectedCountry =
     (if truthy selectedCountry
      then filter (\<lambda>d. Some (c_country d) = selectedCountry) rows
      else rows)"

definition filteredCountries :: "CleanedRow list \<Rightarrow> int \<Rightarrow> jsstring option \<Rightarrow> CleanedRow list" where
  "filteredCountries rows topCountries selectedCountry =
     (if \<not> truthy selectedCountry
      then filter (\<lambda>d. has (topCountrySet rows topCountries) (c_country d)) rows
      else rows)"

definition exploded :: "CleanedRow list \<Rightarrow> ExplodedRow list" where
  "exploded rows =
     concat (map (\<lambda>d. map (\<lambda>disc. \<lparr>e_country = c_country d, e_discipline = disc,
                                    e_gender = c_gender d\<rparr>)
                          (splitDisciplines (c_disciplineRaw d))) rows)"

definition discCounts :: "ExplodedRow list \<Rightarrow> (jsstring, nat) jsmap" where
  "discCounts rows = rollup rows length e_discipline"

definition topDiscSet :: "ExplodedRow list \<Rightarrow> int \<Rightarrow> jsstring list" where
  "topDiscSet rows topDisciplines = topSet (discCounts rows) topDisciplines"

definition finalRows :: "ExplodedRow list \<Rightarrow> int \<Rightarrow> ExplodedRow list" where
  "finalRows rows topDisciplines =
     filter (\<lambda>d. has (topDiscSet rows topDisciplines) (e_discipline d)) rows"

definition link_key :: "jsstring \<Rightarrow> jsstring \<Rightarrow> jsstring" where
  "link_key src tgt = src @ lit ''|||'' @ tgt"

definition addLink :: "(jsstring, nat) jsmap \<Rightarrow> jsstring \<Rightarrow> jsstring \<Rightarrow> nat \<Rightarrow> (jsstring, nat) jsmap" where
  "addLink m src tgt v =
     (let key = link_key src tgt
      in map_set m key ((case map_get m key of None \<Rightarrow> 0 | Some n \<Rightarrow> n) + v))"

definition linksMap :: "ExplodedRow list \<Rightarrow> (jsstring, nat) jsmap" where
  "linksMap rows =
     foldl (\<lambda>m r.
        let c = lit ''C: '' @ e_country r;
            p = lit ''D: '' @ e_discipline r;
            g = lit ''G: '' @ e_gender r
        in addLink (addLink m c p 1) p g 1) [] rows"

text \<open>\<^verbatim>\<open>const [source, target] = key.split("|||")\<close>: the first two pieces.\<close>

definition at :: "'a list \<Rightarrow> nat \<Rightarrow> 'a option" where
  "at xs i = (if i < length xs then Some (xs ! i) else None)"

definition linksNamed :: "(jsstring, nat) jsmap \<Rightarrow> NamedLink list" where
  "linksNamed m =
     map (\<lambda>(key, v). let pieces = split key (lit ''|||'')
                      in \<lparr>l_source = at pieces 0, l_target = at pieces 1, l_value = v\<rparr>) m"

definition nodeNames :: "NamedLink list \<Rightarrow> jsstring option list" where
  "nodeNames ls = new_Set (concat (map (\<lambda>l. [l_source l, l_target l]) ls))"

text \<open>
  \<^verbatim>\<open>nodeNames.filter((n) => n.startsWith(p))\<close>: calling \<^verbatim>\<open>startsWith\<close> on \<^verbatim>\<open>undefined\<close>
  raises a TypeError, so the filter raises when a name is undefined.
\<close>

definition filter_prefix :: "jsstring option list \<Rightarrow> jsstring \<Rightarrow> error + jsstring list" where
  "filter_prefix names p =
     (case those names of
        None \<Rightarrow> Inl TypeError
      | Some ns \<Rightarrow> Inr (filter (\<lambda>n. startsWith n p) ns))"

definition idx_get :: "(jsstring, nat) jsmap \<Rightarrow> jsstring option \<Rightarrow> nat option" where
  "idx_get idx k = (case k of None \<Rightarrow> None | Some n \<Rightarrow> map_get idx n)"

text \<open>Lines 116 to 126 of Homework 3 and 132 to 143 of Homework 2 are the same code.\<close>

definition index_links :: "jsstring list \<Rightarrow> NamedLink list \<Rightarrow> FlowGraph" where
  "index_links ordered ls =
     (let nodes = map (\<lambda>n. \<lparr>name = n\<rparr>) ordered;
          idx = new_Map (map (\<lambda>(n, i). (name n, i)) (zip nodes [0 ..< length nodes]));
          links = map (\<lambda>l. \<lparr>source = idx_get idx (l_source l),
                             target = idx_get idx (l_target l),
                             value = l_value l\<rparr>) ls
      in \<lparr>nodes = nodes, links = links\<rparr>)"

section \<open>The graph of Homework 3\<close>

definition order_nodes :: "NamedLink list \<Rightarrow> error + jsstring list" where
  "order_nodes ls =
     (let names = nodeNames ls in
      (case filter_prefix names (lit ''C: '') of
         Inl e \<Rightarrow> Inl e
       | Inr cs \<Rightarrow>
          (let countries = sort cs in
           (case filter_prefix names (lit ''D: '') of
              Inl e \<Rightarrow> Inl e
            | Inr ds \<Rightarrow>
               (let disciplines = sort ds in
                (case filter_prefix names (lit ''G: '') of
                   Inl e \<Rightarrow> Inl e
                 | Inr gs \<Rightarrow>
                    (let genders = sort gs
                     in Inr (countries @ disciplines @ genders))))))))"

definition graph :: "AthleteRow list \<Rightarrow> int \<Rightarrow> int \<Rightarrow> jsstring option \<Rightarrow> error + FlowGraph" where
  "graph data topCountries topDisciplines selectedCountry =
     (let rows = cleaned data;
          b = base rows selectedCountry;
          fc = filteredCountries b topCountries selectedCountry;
          ex = exploded fc;
          final = finalRows ex topDisciplines;
          ls = linksNamed (linksMap final)
      in case order_nodes ls of
           Inl e \<Rightarrow> Inl e
         | Inr ordered \<Rightarrow> Inr (index_links ordered ls))"

section \<open>The graph of Homework 2\<close>

definition order_nodes_hw2 :: "NamedLink list \<Rightarrow> error + jsstring list" where
  "order_nodes_hw2 ls =
     (let names = nodeNames ls in
      (case filter_prefix names (lit ''C: '') of
         Inl e \<Rightarrow> Inl e
       | Inr cs \<Rightarrow>
          (case filter_prefix names (lit ''D: '') of
             Inl e \<Rightarrow> Inl e
           | Inr ds \<Rightarrow>
              (case filter_prefix names (lit ''G: '') of
                 Inl e \<Rightarrow> Inl e
               | Inr gs \<Rightarrow> Inr (sort cs @ sort ds @ sort gs)))))"

definition graph_hw2 :: "AthleteRow list \<Rightarrow> int \<Rightarrow> int \<Rightarrow> error + FlowGraph" where
  "graph_hw2 data topCountries topDisciplines =
     (let rows = cleaned data;
          fc = filter (\<lambda>d. has (topCountrySet rows topCountries) (c_country d)) rows;
          ex = exploded fc;
          final = finalRows ex topDisciplines;
          ls = linksNamed (linksMap final)
      in case order_nodes_hw2 ls of
           Inl e \<Rightarrow> Inl e
         | Inr ordered \<Rightarrow> Inr (index_links ordered ls))"

section \<open>The focus toggle of the bar chart\<close>

text \<open>
  The click handler of a bar of \<^verbatim>\<open>CountryBarChart\<close> calls
  \<^verbatim>\<open>onSelectCountry(selectedCountry === d.country ? null : d.country)\<close>, and the
  coordinator passes its state setter as \<^verbatim>\<open>onSelectCountry\<close>: the result is the next
  focus.
\<close>

definition onClick :: "jsstring option \<Rightarrow> jsstring \<Rightarrow> jsstring option" where
  "onClick selectedCountry d_country =
     (if selectedCountry = Some d_country then None else Some d_country)"

section \<open>The store\<close>

text \<open>
  The computation of the graph reads the array \<^verbatim>\<open>data\<close>, which the coordinator holds in
  its state and passes to every chart, and it changes arrays and a map in place:
  \<^verbatim>\<open>.sort()\<close> sorts the array it is called on and returns that array, and
  \<^verbatim>\<open>exploded.push\<close> and \<^verbatim>\<open>linksMap.set\<close> change their receivers. An object is a cell
  of the store when it exists before the computation or when the code changes it after
  creating it: the array of the records; the array \<^verbatim>\<open>exploded\<close>; the map \<^verbatim>\<open>linksMap\<close>;
  the arrays of entries that \<^verbatim>\<open>Array.from(counts, ...)\<close> creates and \<^verbatim>\<open>.sort(...)\<close>
  sorts; the arrays of names that \<^verbatim>\<open>nodeNames.filter(...)\<close> creates and \<^verbatim>\<open>.sort()\<close>
  sorts. Every other array, map or set of the computation is created by \<^verbatim>\<open>map\<close>,
  \<^verbatim>\<open>filter\<close>, \<^verbatim>\<open>slice\<close>, \<^verbatim>\<open>flatMap\<close>, \<^verbatim>\<open>Array.from\<close>, \<^verbatim>\<open>d3.rollup\<close>,
  \<^verbatim>\<open>new Set\<close> or \<^verbatim>\<open>new Map\<close>, which leave their arguments as they are, and the code
  does not change it afterwards: it is a value. The code writes no field of a record.
\<close>

datatype obj =
    RowArray "AthleteRow list"
  | ExplodedArray "ExplodedRow list"
  | EntryArray "(jsstring \<times> nat) list"
  | LinkMap "(jsstring, nat) jsmap"
  | StringArray "jsstring list"

type_synonym addr = nat
type_synonym store = "obj list"






definition linkMap_at :: "store \<Rightarrow> addr \<Rightarrow> (jsstring, nat) jsmap" where
  "linkMap_at h a = (if a < length h then (case h ! a of LinkMap m \<Rightarrow> m | _ \<Rightarrow> []) else [])"


section \<open>The graph computation in the store\<close>










section \<open>The memo of the graph and the focus of the coordinator\<close>






section \<open>The discipline field of the scatter chart\<close>

text \<open>
  The captures of \<^verbatim>\<open>s.matchAll(/'([^']+)'/g)\<close>, read from left to right. The state is
  \<open>None\<close> outside a quoted item and \<open>Some body\<close> after an opening quote. A quote after an
  empty body cannot close a match, so it is tried as the next opening quote; an item
  that is still open at the end of the string is no match.
\<close>

fun quoted :: "jsstring option \<Rightarrow> jsstring \<Rightarrow> jsstring list" where
  "quoted st [] = []"
| "quoted None (c # s) = (if c = 39 then quoted (Some []) s else quoted None s)"
| "quoted (Some body) (c # s) =
     (if c = 39
      then (if body \<noteq> [] then body # quoted None s else quoted (Some []) s)
      else quoted (Some (body @ [c])) s)"

fun join :: "jsstring list \<Rightarrow> jsstring \<Rightarrow> jsstring" where
  "join [] sep = []"
| "join [x] sep = x"
| "join (x # y # xs) sep = x @ sep @ join (y # xs) sep"

text \<open>\<^verbatim>\<open>s.replace(/^\[|\]$/g, "")\<close>: without one opening bracket at the start and one
  closing bracket at the end.\<close>

definition strip_brackets :: "jsstring \<Rightarrow> jsstring" where
  "strip_brackets s =
     (let s1 = (case s of [] \<Rightarrow> [] | c # r \<Rightarrow> if c = 91 then r else s)
      in if s1 \<noteq> [] \<and> last s1 = 93 then butlast s1 else s1)"

definition parseDisciplinesField :: "jsstring option \<Rightarrow> jsstring" where
  "parseDisciplinesField v =
     (let s = trim (case v of None \<Rightarrow> [] | Some x \<Rightarrow> x)
      in if s = [] then lit ''Unknown''
         else (let matches = map trim (quoted None s)
               in if length matches \<noteq> 0 then join matches (lit '', '')
                  else trim (filter (\<lambda>c. c \<noteq> 34) (strip_brackets s))))"

section \<open>The exploder as the specification words it\<close>

text \<open>
  The pieces of a string between its separators, from left to right: a string without a
  separator is its one piece; otherwise the first piece is the text before the first
  separator, and the others are the pieces of the text behind it.
\<close>

function pieces :: "jsstring \<Rightarrow> jsstring list" where
  "pieces s =
     (case dropWhile (\<lambda>c. \<not> is_sep c) s of
        [] \<Rightarrow> [s]
      | c # rest \<Rightarrow> takeWhile (\<lambda>c. \<not> is_sep c) s # pieces rest)"
  by pat_completeness auto

termination
proof (relation "measure length")
  fix s :: jsstring and c rest
  assume "dropWhile (\<lambda>c. \<not> is_sep c) s = c # rest"
  then have "length (c # rest) \<le> length s" by (metis length_dropWhile_le)
  then show "(rest, s) \<in> measure length" by simp
qed simp

declare pieces.simps [simp del]

text \<open>
  The one path without quoted items: every piece trimmed, the empty ones discarded, the
  others kept in their order; the string itself when no piece remains.
\<close>

definition single_path :: "jsstring \<Rightarrow> jsstring list" where
  "single_path s =
     (let labels = filter (\<lambda>p. p \<noteq> []) (map trim (pieces s))
      in if labels = [] then [s] else labels)"

text \<open>
  The two paths of the specification: quoted items first, trimmed and joined into one
  label; without quoted items the path above.
\<close>

definition explode_spec :: "jsstring \<Rightarrow> jsstring list" where
  "explode_spec s =
     (let items = map trim (quoted None s)
      in if items \<noteq> [] then [join items (lit '', '')] else single_path s)"

section \<open>Notions of the proofs\<close>

text \<open>
  The computation from line 90 on, as a function of the final rows; the two keys that
  a final row adds to the map of the links; the node names once all of them are known
  to be defined, and their order.
\<close>

definition graph_of_rows :: "ExplodedRow list \<Rightarrow> error + FlowGraph" where
  "graph_of_rows final =
     (let ls = linksNamed (linksMap final)
      in case order_nodes ls of
           Inl e \<Rightarrow> Inl e
         | Inr ordered \<Rightarrow> Inr (index_links ordered ls))"

definition row_keys :: "ExplodedRow \<Rightarrow> jsstring list" where
  "row_keys r =
     [link_key (lit ''C: '' @ e_country r) (lit ''D: '' @ e_discipline r),
      link_key (lit ''D: '' @ e_discipline r) (lit ''G: '' @ e_gender r)]"

definition names_of :: "ExplodedRow list \<Rightarrow> jsstring list" where
  "names_of rows = map the (nodeNames (linksNamed (linksMap rows)))"

definition ordered_of :: "ExplodedRow list \<Rightarrow> jsstring list" where
  "ordered_of rows =
     sort (filter (\<lambda>n. startsWith n (lit ''C: '')) (names_of rows)) @
     sort (filter (\<lambda>n. startsWith n (lit ''D: '')) (names_of rows)) @
     sort (filter (\<lambda>n. startsWith n (lit ''G: '')) (names_of rows))"

text \<open>One more occurrence of a key in a map of counts, which is what \<^verbatim>\<open>addLink(s, t, 1)\<close> does
  with the key of \<open>s\<close> and \<open>t\<close>.\<close>

definition bump :: "(jsstring, nat) jsmap \<Rightarrow> jsstring \<Rightarrow> (jsstring, nat) jsmap" where
  "bump m k = map_set m k ((case map_get m k of None \<Rightarrow> 0 | Some n \<Rightarrow> n) + 1)"

text \<open>An entry of a map of counts with its count doubled.\<close>

definition dbl :: "'k \<times> nat \<Rightarrow> 'k \<times> nat" where
  "dbl e = (fst e, 2 * snd e)"

text \<open>Rows in which no field holds a bar, the code unit 124 of the separator of the keys;
  the pairs of labels that a final row links; the final rows of an input; and the link
  that the graph makes of a key.\<close>

definition bar_free :: "AthleteRow \<Rightarrow> bool" where
  "bar_free r \<longleftrightarrow>
     124 \<notin> set (case country r of None \<Rightarrow> [] | Some s \<Rightarrow> s) \<and>
     124 \<notin> set (case disciplines r of None \<Rightarrow> [] | Some s \<Rightarrow> s) \<and>
     124 \<notin> set (case gender r of None \<Rightarrow> [] | Some s \<Rightarrow> s)"

definition row_bar_free :: "ExplodedRow \<Rightarrow> bool" where
  "row_bar_free e \<longleftrightarrow>
     124 \<notin> set (e_country e) \<and> 124 \<notin> set (e_discipline e) \<and> 124 \<notin> set (e_gender e)"

definition row_pairs :: "ExplodedRow \<Rightarrow> (jsstring \<times> jsstring) list" where
  "row_pairs r =
     [(lit ''C: '' @ e_country r, lit ''D: '' @ e_discipline r),
      (lit ''D: '' @ e_discipline r, lit ''G: '' @ e_gender r)]"

definition final_of :: "AthleteRow list \<Rightarrow> int \<Rightarrow> int \<Rightarrow> jsstring option \<Rightarrow> ExplodedRow list" where
  "final_of data tc td sel =
     finalRows (exploded (filteredCountries (base (cleaned data) sel) tc sel)) td"

definition link_of :: "ExplodedRow list \<Rightarrow> jsstring \<Rightarrow> Link" where
  "link_of rows k =
     \<lparr>source = idx_get (new_Map (zip (ordered_of rows) [0 ..< length (ordered_of rows)]))
                 (at (split k (lit ''|||'')) 0),
      target = idx_get (new_Map (zip (ordered_of rows) [0 ..< length (ordered_of rows)]))
                 (at (split k (lit ''|||'')) 1),
      value = count_list (concat (map row_keys rows)) k\<rparr>"


section \<open>Properties of the library models\<close>

lemma set_foldl_set_add: "set (foldl set_add acc xs) = set acc \<union> set xs"
  by (induction xs arbitrary: acc) (auto simp: set_add_def)

lemma distinct_foldl_set_add: "distinct acc \<Longrightarrow> distinct (foldl set_add acc xs)"
  by (induction xs arbitrary: acc) (auto simp: set_add_def)

lemma set_new_Set: "set (new_Set xs) = set xs"
  by (simp add: new_Set_def set_foldl_set_add)

lemma distinct_new_Set: "distinct (new_Set xs)"
  by (simp add: new_Set_def distinct_foldl_set_add)

lemma new_Set_Nil: "new_Set [] = []"
  by (simp add: new_Set_def)

lemma slice0_zero: "slice0 xs 0 = []"
  by (simp add: slice0_def)

lemma slice0_mono:
  assumes "1 \<le> n"
  shows "set (slice0 xs (n - 1)) \<subseteq> set (slice0 xs n)"
proof -
  have "nat (n - 1) \<le> nat n" by simp
  then have "set (take (nat (n - 1)) xs) \<subseteq> set (take (nat n) xs)"
    by (rule set_take_subset_set_take)
  with assms show ?thesis by (simp add: slice0_def)
qed

lemma topSet_zero: "topSet counts 0 = []"
  by (simp add: topSet_def slice0_zero new_Set_Nil)

section \<open>The stages on no rows\<close>

lemma exploded_Nil: "exploded [] = []"
  by (simp add: exploded_def)

lemma finalRows_Nil: "finalRows [] n = []"
  by (simp add: finalRows_def)

lemma linksMap_Nil: "linksMap [] = []"
  by (simp add: linksMap_def)

lemma linksNamed_Nil: "linksNamed [] = []"
  by (simp add: linksNamed_def)

lemma order_nodes_Nil: "order_nodes [] = Inr []"
  by (simp add: order_nodes_def nodeNames_def new_Set_Nil filter_prefix_def)

lemma index_links_Nil: "index_links [] [] = \<lparr>nodes = [], links = []\<rparr>"
  by (simp add: index_links_def)

lemma graph_of_no_rows:
  "(case order_nodes (linksNamed (linksMap (finalRows (exploded []) td))) of
      Inl e \<Rightarrow> Inl e
    | Inr ordered \<Rightarrow> Inr (index_links ordered (linksNamed (linksMap (finalRows (exploded []) td)))))
   = Inr \<lparr>nodes = [], links = []\<rparr>"
  by (simp add: exploded_Nil finalRows_Nil linksMap_Nil linksNamed_Nil order_nodes_Nil index_links_Nil)

lemma filteredCountries_zero:
  "\<not> truthy sel \<Longrightarrow> filteredCountries rows 0 sel = []"
  by (simp add: filteredCountries_def topCountrySet_def topSet_zero has_def)

text \<open>Sorting the three tiers where they are concatenated, as Homework 2 does, or each
  after its filter, as Homework 3 does, is the same.\<close>

lemma order_nodes_hw2_eq: "order_nodes_hw2 ls = order_nodes ls"
  by (simp add: order_nodes_hw2_def order_nodes_def Let_def split: sum.splits)

section \<open>Splitting a key\<close>

lemma split_str_not_Nil: "split_str sep cur s \<noteq> []"
  by (induction sep cur s rule: split_str.induct) auto

lemma lit_bars: "lit ''|||'' = [124, 124, 124]"
  by (simp add: lit_def)

text \<open>A separator is found behind every text before it.\<close>

lemma split_str_two:
  "sep \<noteq> [] \<Longrightarrow> 2 \<le> length (split_str sep cur (a @ sep @ b))"
proof (induction a arbitrary: cur)
  case Nil
  then obtain x xs where sep: "sep = x # xs" by (cases sep) auto
  have "split_str sep cur (sep @ b) = cur # split_str sep [] b"
    by (simp add: sep)
  moreover have "1 \<le> length (split_str sep [] b)"
    using split_str_not_Nil[of sep "[]" b] by (cases "split_str sep [] b") auto
  ultimately show ?case by simp
next
  case (Cons y a)
  show ?case
  proof (cases "take (length sep) (y # a @ sep @ b) = sep")
    case True
    have "1 \<le> length (split_str sep [] (drop (length sep - 1) (a @ sep @ b)))"
      using split_str_not_Nil[of sep "[]"]
      by (cases "split_str sep [] (drop (length sep - 1) (a @ sep @ b))") auto
    with True Cons.prems show ?thesis by simp
  next
    case False
    with Cons show ?thesis by simp
  qed
qed

text \<open>Before the first bar nothing is cut.\<close>

lemma split_str_no_bar:
  "124 \<notin> set c \<Longrightarrow>
   split_str [124, 124, 124] cur (c @ [124, 124, 124] @ t) = (cur @ c) # split_str [124, 124, 124] [] t"
  by (induction c arbitrary: cur) auto

lemma split_str_no_bar_end:
  "124 \<notin> set c \<Longrightarrow> split_str [124, 124, 124] cur c = [cur @ c]"
  by (induction c arbitrary: cur) auto

lemma split_link_key:
  assumes "124 \<notin> set c"
  shows "split (link_key c t) (lit ''|||'') = c # split t (lit ''|||'')"
  using split_str_no_bar[OF assms, of "[]" t] by (simp add: split_def link_key_def lit_bars)

lemma split_link_key_two:
  "2 \<le> length (split (link_key c t) (lit ''|||''))"
  unfolding split_def link_key_def by (rule split_str_two) (simp add: lit_bars)

section \<open>The links map and the names of the nodes\<close>

lemma graph_unfold:
  "graph data tc td sel =
     graph_of_rows (finalRows (exploded (filteredCountries (base (cleaned data) sel) tc sel)) td)"
  by (simp add: graph_def graph_of_rows_def)

lemma map_get_map_set: "map_get (map_set m k v) k' = (if k = k' then Some v else map_get m k')"
  by (induction m) auto

lemma map_fst_map_set: "map fst (map_set m k v) = set_add (map fst m) k"
  by (induction m) (force simp: set_add_def)+

lemma map_fst_addLink: "map fst (addLink m s t v) = set_add (map fst m) (link_key s t)"
  by (simp add: addLink_def Let_def map_fst_map_set)

lemma map_fst_foldl_addLink:
  "map fst (foldl (\<lambda>m r.
        let c = lit ''C: '' @ e_country r;
            p = lit ''D: '' @ e_discipline r;
            g = lit ''G: '' @ e_gender r
        in addLink (addLink m c p 1) p g 1) m rows)
   = foldl set_add (map fst m) (concat (map row_keys rows))"
  by (induction rows arbitrary: m) (simp_all add: Let_def map_fst_addLink row_keys_def)

lemma map_fst_linksMap: "map fst (linksMap rows) = new_Set (concat (map row_keys rows))"
  using map_fst_foldl_addLink[of "[]" rows] by (simp add: linksMap_def new_Set_def)

lemma keys_linksMap: "fst ` set (linksMap rows) = (\<Union>r \<in> set rows. set (row_keys r))"
proof -
  have "fst ` set (linksMap rows) = set (map fst (linksMap rows))" by simp
  also have "\<dots> = (\<Union>r \<in> set rows. set (row_keys r))"
    by (simp only: map_fst_linksMap set_new_Set) simp
  finally show ?thesis .
qed

lemma distinct_keys_linksMap: "distinct (map fst (linksMap rows))"
  by (simp only: map_fst_linksMap distinct_new_Set)

lemma key_is_link_key:
  assumes "k \<in> fst ` set (linksMap rows)"
  obtains s t where "k = link_key s t"
  using assms unfolding keys_linksMap by (auto simp: row_keys_def)

lemma at_Some: "i < length xs \<Longrightarrow> at xs i = Some (xs ! i)"
  by (simp add: at_def)

lemma linksNamed_defined:
  assumes "l \<in> set (linksNamed (linksMap rows))"
  shows "l_source l \<noteq> None \<and> l_target l \<noteq> None"
proof -
  from assms obtain k v where kv: "(k, v) \<in> set (linksMap rows)"
    and l: "l = \<lparr>l_source = at (split k (lit ''|||'')) 0, l_target = at (split k (lit ''|||'')) 1, l_value = v\<rparr>"
    by (auto simp: linksNamed_def Let_def)
  from kv have "k \<in> fst ` set (linksMap rows)" by force
  then obtain s t where "k = link_key s t" by (rule key_is_link_key)
  then have "2 \<le> length (split k (lit ''|||''))" by (simp add: split_link_key_two)
  then have "0 < length (split k (lit ''|||'')) \<and> 1 < length (split k (lit ''|||''))" by linarith
  then show ?thesis by (simp add: l at_def del: length_greater_0_conv)
qed

lemma nodeNames_defined: "None \<notin> set (nodeNames (linksNamed (linksMap rows)))"
  by (auto simp: nodeNames_def set_new_Set dest!: linksNamed_defined)

lemma those_defined: "None \<notin> set xs \<Longrightarrow> those xs = Some (map the xs)"
proof (induction xs)
  case Nil
  show ?case by simp
next
  case (Cons a xs)
  then show ?case by (cases a) auto
qed

lemma filter_prefix_defined:
  "None \<notin> set names \<Longrightarrow> filter_prefix names p = Inr (filter (\<lambda>n. startsWith n p) (map the names))"
  by (simp add: filter_prefix_def those_defined)

lemma order_nodes_rows: "order_nodes (linksNamed (linksMap rows)) = Inr (ordered_of rows)"
  by (simp add: order_nodes_def Let_def filter_prefix_defined[OF nodeNames_defined] ordered_of_def names_of_def)

lemma graph_of_rows_Inr:
  "graph_of_rows rows = Inr (index_links (ordered_of rows) (linksNamed (linksMap rows)))"
  by (simp add: graph_of_rows_def order_nodes_rows)

section \<open>Resolving names to indices\<close>

lemma map_get_map_of: "map_get m k = map_of m k"
  by (induction m) auto

lemma map_set_fresh: "k \<notin> fst ` set m \<Longrightarrow> map_set m k v = m @ [(k, v)]"
  by (induction m) auto

lemma foldl_map_set_distinct:
  "distinct (map fst (m @ kvs)) \<Longrightarrow> foldl (\<lambda>m (k, v). map_set m k v) m kvs = m @ kvs"
proof (induction kvs arbitrary: m)
  case Nil
  show ?case by simp
next
  case (Cons kv kvs)
  obtain k v where kv: "kv = (k, v)" by (cases kv)
  from Cons.prems have fresh: "k \<notin> fst ` set m" by (auto simp: kv)
  from Cons.prems have "distinct (map fst ((m @ [(k, v)]) @ kvs))" by (simp add: kv)
  from Cons.IH[OF this] show ?case by (simp add: kv map_set_fresh[OF fresh])
qed

lemma new_Map_distinct: "distinct (map fst kvs) \<Longrightarrow> new_Map kvs = kvs"
  using foldl_map_set_distinct[of "[]" kvs] by (simp add: new_Map_def)

lemma idx_zip:
  "map (\<lambda>(n, i). (name n, i)) (zip (map (\<lambda>n. \<lparr>name = n\<rparr>) xs) [0 ..< length (map (\<lambda>n. \<lparr>name = n\<rparr>) xs)])
   = zip xs [0 ..< length xs]"
  by (simp add: zip_map1) (rule map_idI, auto)

lemma idx_get_iff:
  assumes "distinct xs"
  shows "map_get (new_Map (zip xs [0 ..< length xs])) n = Some i \<longleftrightarrow> i < length xs \<and> xs ! i = n"
proof -
  have d: "distinct (map fst (zip xs [0 ..< length xs]))" using assms by simp
  have "map_get (new_Map (zip xs [0 ..< length xs])) n = Some i
        \<longleftrightarrow> (n, i) \<in> set (zip xs [0 ..< length xs])"
    by (simp add: new_Map_distinct[OF d] map_get_map_of map_of_eq_Some_iff[OF d])
  also have "\<dots> \<longleftrightarrow> i < length xs \<and> xs ! i = n"
    by (auto simp: in_set_zip)
  finally show ?thesis .
qed

lemma idx_get_None_iff:
  assumes "distinct xs"
  shows "map_get (new_Map (zip xs [0 ..< length xs])) n = None \<longleftrightarrow> n \<notin> set xs"
proof -
  have d: "distinct (map fst (zip xs [0 ..< length xs]))" using assms by simp
  have "fst ` set (zip xs [0 ..< length xs]) = set xs"
    by (metis length_upt map_fst_zip minus_nat.diff_0 set_map)
  then show ?thesis
    by (simp add: new_Map_distinct[OF d] map_get_map_of map_of_eq_None_iff)
qed

text \<open>The graph of an ordered list of distinct names.\<close>

lemma nodes_index_links: "nodes (index_links ordered ls) = map (\<lambda>n. \<lparr>name = n\<rparr>) ordered"
  by (simp add: index_links_def Let_def)

lemma links_index_links:
  "links (index_links ordered ls) =
     map (\<lambda>l. \<lparr>source = idx_get (new_Map (zip ordered [0 ..< length ordered])) (l_source l),
                target = idx_get (new_Map (zip ordered [0 ..< length ordered])) (l_target l),
                value = l_value l\<rparr>) ls"
  unfolding index_links_def Let_def idx_zip by simp

section \<open>The names of the nodes and their order\<close>

lemma lit_C: "lit ''C: '' = [67, 58, 32]" by (simp add: lit_def)
lemma lit_D: "lit ''D: '' = [68, 58, 32]" by (simp add: lit_def)
lemma lit_G: "lit ''G: '' = [71, 58, 32]" by (simp add: lit_def)

lemma startsWith_append: "startsWith (p @ s) p"
  by (simp add: startsWith_def)

lemma startsWith_C_not_D: "startsWith n (lit ''C: '') \<Longrightarrow> \<not> startsWith n (lit ''D: '')"
  by (auto simp: startsWith_def lit_C lit_D)

lemma startsWith_C_not_G: "startsWith n (lit ''C: '') \<Longrightarrow> \<not> startsWith n (lit ''G: '')"
  by (auto simp: startsWith_def lit_C lit_G)

lemma startsWith_D_not_G: "startsWith n (lit ''D: '') \<Longrightarrow> \<not> startsWith n (lit ''G: '')"
  by (auto simp: startsWith_def lit_D lit_G)

lemma Some_in_nodeNames:
  "Some n \<in> set (nodeNames (linksNamed m)) \<longleftrightarrow>
   (\<exists>k \<in> fst ` set m. at (split k (lit ''|||'')) 0 = Some n \<or> at (split k (lit ''|||'')) 1 = Some n)"
  by (force simp: nodeNames_def set_new_Set linksNamed_def Let_def)

lemma in_names_of:
  "n \<in> set (names_of rows) \<longleftrightarrow>
   (\<exists>r \<in> set rows. \<exists>k \<in> set (row_keys r).
      at (split k (lit ''|||'')) 0 = Some n \<or> at (split k (lit ''|||'')) 1 = Some n)"
proof -
  have "n \<in> set (names_of rows) \<longleftrightarrow> Some n \<in> set (nodeNames (linksNamed (linksMap rows)))"
  proof
    assume "n \<in> set (names_of rows)"
    then obtain x where x: "x \<in> set (nodeNames (linksNamed (linksMap rows)))" and n: "n = the x"
      by (auto simp: names_of_def)
    from x nodeNames_defined[of rows] have "x \<noteq> None" by metis
    with n x show "Some n \<in> set (nodeNames (linksNamed (linksMap rows)))" by auto
  next
    assume "Some n \<in> set (nodeNames (linksNamed (linksMap rows)))"
    then have "the (Some n) \<in> the ` set (nodeNames (linksNamed (linksMap rows)))" by (rule imageI)
    then show "n \<in> set (names_of rows)" by (simp add: names_of_def)
  qed
  then show ?thesis by (simp add: Some_in_nodeNames keys_linksMap)
qed

lemma distinct_names_of: "distinct (names_of rows)"
proof -
  have "inj_on the (set (nodeNames (linksNamed (linksMap rows))))"
    using nodeNames_defined[of rows] by (auto simp: inj_on_def) (metis option.collapse)
  then show ?thesis
    by (simp add: names_of_def distinct_map nodeNames_def distinct_new_Set)
qed

lemma distinct_ordered_of: "distinct (ordered_of rows)"
  by (auto simp: ordered_of_def distinct_names_of
      dest: startsWith_C_not_D startsWith_C_not_G startsWith_D_not_G)

lemma set_ordered_of:
  "set (ordered_of rows) =
     {n \<in> set (names_of rows).
        startsWith n (lit ''C: '') \<or> startsWith n (lit ''D: '') \<or> startsWith n (lit ''G: '')}"
  by (auto simp: ordered_of_def)

lemma graph_Inr:
  "graph data tc td sel =
     Inr (index_links
            (ordered_of (finalRows (exploded (filteredCountries (base (cleaned data) sel) tc sel)) td))
            (linksNamed (linksMap (finalRows (exploded (filteredCountries (base (cleaned data) sel) tc sel)) td))))"
  by (simp only: graph_unfold graph_of_rows_Inr)

section \<open>The rows of the exploder\<close>

lemma at_Cons_0: "at (x # xs) 0 = Some x"
  by (simp add: at_def)

lemma in_exploded:
  "cr \<in> set rows \<Longrightarrow> d \<in> set (splitDisciplines (c_disciplineRaw cr)) \<Longrightarrow>
   \<lparr>e_country = c_country cr, e_discipline = d, e_gender = c_gender cr\<rparr> \<in> set (exploded rows)"
  by (auto simp: exploded_def)

section \<open>Trimming and the exploder\<close>

lemma set_trim: "set (trim s) \<subseteq> set s"
proof -
  have "set (trim s) \<subseteq> set (dropWhile is_ws s)"
    unfolding trim_def by (auto dest: set_dropWhileD)
  also have "\<dots> \<subseteq> set s" by (auto dest: set_dropWhileD)
  finally show ?thesis .
qed

lemma trim_empty_ws:
  assumes "trim s = []"
  shows "\<forall>c \<in> set s. is_ws c"
proof -
  let ?a = "dropWhile is_ws s"
  from assms have "dropWhile is_ws (rev ?a) = []" by (simp add: trim_def)
  then have all: "\<forall>c \<in> set ?a. is_ws c" by simp
  have "?a = []"
  proof (rule ccontr)
    assume ne: "?a \<noteq> []"
    then have "\<not> is_ws (hd ?a)" by (rule hd_dropWhile)
    moreover from ne have "hd ?a \<in> set ?a" by simp
    ultimately show False using all by blast
  qed
  then show ?thesis by simp
qed

lemma trim_idem: "trim (trim s) = trim s"
proof -
  let ?a = "dropWhile is_ws s"
  let ?b = "dropWhile is_ws (rev ?a)"
  have t: "trim s = rev ?b" by (simp add: trim_def)
  show ?thesis
  proof (cases "?b = []")
    case True
    with t have e: "trim s = []" by simp
    have "trim [] = []" by (simp add: trim_def)
    with e show ?thesis by simp
  next
    case False
    then have hb: "\<not> is_ws (hd ?b)" by (rule hd_dropWhile)
    have ane: "?a \<noteq> []"
    proof
      assume "?a = []"
      then have "?b = []" by (simp only: rev.simps dropWhile.simps)
      with False show False by contradiction
    qed
    then have ha: "\<not> is_ws (hd ?a)" by (rule hd_dropWhile)
    obtain pre where pre: "rev ?a = pre @ ?b"
      by (metis takeWhile_dropWhile_id)
    with False have "last ?b = last (rev ?a)" by (metis last_appendR)
    also have "\<dots> = hd ?a" using ane by (simp add: last_rev)
    finally have lb: "\<not> is_ws (last ?b)" using ha by simp
    have "hd (rev ?b) = last ?b" using False by (simp add: hd_rev)
    with lb False have "dropWhile is_ws (rev ?b) = rev ?b"
      by (simp add: dropWhile_eq_self_iff)
    moreover from hb have "dropWhile is_ws ?b = ?b"
      by (simp add: dropWhile_eq_self_iff)
    ultimately show ?thesis by (simp add: trim_def)
  qed
qed


lemma split_class_from_pieces:
  "p \<in> set (split_class_from P cur s) \<Longrightarrow> set p \<subseteq> set cur \<union> {c \<in> set s. \<not> P c}"
  by (induction P cur s rule: split_class_from.induct) (auto split: if_splits)

lemma split_class_from_cover:
  "set cur \<union> set s \<subseteq> {c. P c} \<union> \<Union> (set ` set (split_class_from P cur s))"
  by (induction P cur s rule: split_class_from.induct) (auto split: if_splits)

lemma split_class_from_not_Nil: "split_class_from P cur s \<noteq> []"
  by (induction P cur s rule: split_class_from.induct) auto

lemma splitDisciplines_not_Nil: "splitDisciplines s \<noteq> []"
  by (simp add: splitDisciplines_def Let_def)

lemma splitDisciplines_cases:
  assumes "d \<in> set (splitDisciplines s)"
  shows "(d \<noteq> [] \<and> trim d = d \<and> (\<forall>c \<in> set d. \<not> is_sep c)) \<or>
         (splitDisciplines s = [s] \<and> d = s \<and> (\<forall>c \<in> set s. is_sep c \<or> is_ws c))"
proof (cases "filter (\<lambda>x. x \<noteq> []) (map trim (split_class s is_sep)) = []")
  case True
  then have res: "splitDisciplines s = [s]" by (simp add: splitDisciplines_def Let_def)
  have "\<forall>c \<in> set s. is_sep c \<or> is_ws c"
  proof
    fix c assume "c \<in> set s"
    with split_class_from_cover[of "[]" s is_sep]
    consider "is_sep c" | p where "p \<in> set (split_class s is_sep)" "c \<in> set p"
      by (auto simp: split_class_def)
    then show "is_sep c \<or> is_ws c"
    proof cases
      case 1 then show ?thesis by simp
    next
      case 2
      from True 2(1) have "trim p = []" by (auto simp: filter_empty_conv)
      with 2(2) show ?thesis using trim_empty_ws by blast
    qed
  qed
  with res assms show ?thesis by simp
next
  case False
  then have res: "splitDisciplines s = filter (\<lambda>x. x \<noteq> []) (map trim (split_class s is_sep))"
    by (simp add: splitDisciplines_def Let_def)
  with assms obtain p where p: "p \<in> set (split_class s is_sep)" and d: "d = trim p" "d \<noteq> []"
    by auto
  from split_class_from_pieces[of p is_sep "[]" s] p have "\<forall>c \<in> set p. \<not> is_sep c"
    by (auto simp: split_class_def)
  with set_trim[of p] have "\<forall>c \<in> set d. \<not> is_sep c" by (auto simp: d)
  with d show ?thesis by (simp add: trim_idem)
qed

lemma splitDisciplines_bar_or_C:
  assumes "d \<in> set (splitDisciplines s)"
  shows "124 \<notin> set d \<or> 67 \<notin> set d"
  using splitDisciplines_cases[OF assms]
  by (auto simp: is_sep_def is_ws_def)






section \<open>The top selection\<close>

lemma map_fst_group_push: "map fst (group_push groups k x) = set_add (map fst groups) k"
  by (simp add: group_push_def map_fst_map_set split: option.splits)

lemma map_fst_foldl_group_push:
  "map fst (foldl (\<lambda>groups x. group_push groups (key x) x) groups vals)
   = foldl set_add (map fst groups) (map key vals)"
  by (induction vals arbitrary: groups) (simp_all add: map_fst_group_push)

lemma map_fst_rollup: "map fst (rollup vals reduce key) = new_Set (map key vals)"
proof -
  have "map fst (rollup vals reduce key)
        = map fst (foldl (\<lambda>groups x. group_push groups (key x) x) [] vals)"
    by (auto simp: rollup_def)
  then show ?thesis by (simp add: map_fst_foldl_group_push new_Set_def)
qed

lemma keys_rollup: "fst ` set (rollup vals reduce key) = key ` set vals"
proof -
  have "fst ` set (rollup vals reduce key) = set (map fst (rollup vals reduce key))" by simp
  also have "\<dots> = key ` set vals" by (simp only: map_fst_rollup set_new_Set set_map)
  finally show ?thesis .
qed

lemma set_insort_by: "set (insort_by cmp x xs) = insert x (set xs)"
  by (induction xs) auto

lemma set_sort_by: "set (sort_by cmp xs) = set xs"
  by (induction xs) (simp_all add: sort_by_def set_insort_by)

lemma length_insort_by: "length (insort_by cmp x xs) = Suc (length xs)"
  by (induction xs) auto

lemma length_sort_by: "length (sort_by cmp xs) = length xs"
  by (induction xs) (simp_all add: sort_by_def length_insort_by)

lemma set_slice0: "set (slice0 xs n) \<subseteq> set xs"
  by (auto simp: slice0_def dest: in_set_takeD)

lemma slice0_not_Nil: "1 \<le> n \<Longrightarrow> xs \<noteq> [] \<Longrightarrow> slice0 xs n \<noteq> []"
  by (cases xs) (auto simp: slice0_def take_Cons')

lemma set_topSet: "set (topSet counts n) \<subseteq> fst ` set counts"
proof -
  have "set (topSet counts n) = fst ` set (slice0 (sort_by (\<lambda>a b. descending (snd a) (snd b)) counts) n)"
    by (simp add: topSet_def set_new_Set)
  also have "\<dots> \<subseteq> fst ` set (sort_by (\<lambda>a b. descending (snd a) (snd b)) counts)"
    by (rule image_mono) (rule set_slice0)
  finally show ?thesis by (simp add: set_sort_by)
qed

lemma topSet_not_empty:
  assumes "1 \<le> n" "counts \<noteq> []"
  shows "set (topSet counts n) \<noteq> {}"
proof -
  have "sort_by (\<lambda>a b. descending (snd a) (snd b)) counts \<noteq> []"
    using assms(2) length_sort_by[of "\<lambda>a b. descending (snd a) (snd b)" counts] by auto
  then have "slice0 (sort_by (\<lambda>a b. descending (snd a) (snd b)) counts) n \<noteq> []"
    using assms(1) by (intro slice0_not_Nil)
  then show ?thesis by (simp add: topSet_def set_new_Set)
qed

lemma set_topDiscSet: "set (topDiscSet rows n) \<subseteq> e_discipline ` set rows"
  using set_topSet[of "discCounts rows" n] by (simp add: topDiscSet_def discCounts_def keys_rollup)

lemma set_topCountrySet: "set (topCountrySet rows n) \<subseteq> c_country ` set rows"
  using set_topSet[of "countryCounts rows" n] by (simp add: topCountrySet_def countryCounts_def keys_rollup)

lemma finalRows_not_Nil:
  assumes "1 \<le> n" "rows \<noteq> []"
  shows "finalRows rows n \<noteq> []"
proof -
  have "fst ` set (discCounts rows) \<noteq> {}"
    using assms(2) by (simp add: discCounts_def keys_rollup)
  then have "discCounts rows \<noteq> []" by auto
  from topSet_not_empty[OF assms(1) this] have "set (topDiscSet rows n) \<noteq> {}"
    unfolding topDiscSet_def .
  then obtain k where k: "k \<in> set (topDiscSet rows n)"
    by (cases "topDiscSet rows n") auto
  with set_topDiscSet[of rows n] obtain r where "r \<in> set rows" "e_discipline r = k" by auto
  with k have "r \<in> set (finalRows rows n)" by (simp add: finalRows_def has_def)
  then show ?thesis by auto
qed

lemma exploded_not_Nil:
  assumes "rows \<noteq> []"
  shows "exploded rows \<noteq> []"
proof -
  from assms obtain cr rest where rows: "rows = cr # rest" by (cases rows) auto
  obtain d ds where "splitDisciplines (c_disciplineRaw cr) = d # ds"
    using splitDisciplines_not_Nil[of "c_disciplineRaw cr"]
    by (cases "splitDisciplines (c_disciplineRaw cr)") auto
  then show ?thesis by (simp add: exploded_def rows)
qed

lemma exploded_country: "e \<in> set (exploded rows) \<Longrightarrow> e_country e \<in> c_country ` set rows"
  by (auto simp: exploded_def)

lemma exploded_discipline:
  "e \<in> set (exploded rows) \<Longrightarrow> \<exists>s. e_discipline e \<in> set (splitDisciplines s)"
  by (auto simp: exploded_def)

lemma set_finalRows: "set (finalRows rows n) \<subseteq> set rows"
  by (auto simp: finalRows_def)

lemma sorted_insort_by_desc:
  "sorted_wrt (\<lambda>a b. snd b \<le> snd a) ys \<Longrightarrow>
   sorted_wrt (\<lambda>a b. snd b \<le> snd a) (insort_by (\<lambda>a b. descending (snd a) (snd b)) x ys)"
  by (induction ys) (auto simp: descending_def set_insort_by split: if_splits)

lemma sorted_sort_by_desc:
  "sorted_wrt (\<lambda>a b. snd b \<le> snd a) (sort_by (\<lambda>a b. descending (snd a) (snd b)) xs)"
  by (induction xs) (simp_all add: sort_by_def sorted_insort_by_desc)

lemma filter_insort_by_desc:
  "sorted_wrt (\<lambda>a b. snd b \<le> snd a) ys \<Longrightarrow>
   filter (\<lambda>e. snd e = c) (insort_by (\<lambda>a b. descending (snd a) (snd b)) x ys)
   = (if snd x = c then x # filter (\<lambda>e. snd e = c) ys else filter (\<lambda>e. snd e = c) ys)"
  by (induction ys) (auto simp: descending_def split: if_splits)

text \<open>The sort of the counts is by descending count and keeps the order of equal counts.\<close>

lemma sort_by_desc_stable:
  "filter (\<lambda>e. snd e = c) (sort_by (\<lambda>a b. descending (snd a) (snd b)) xs)
   = filter (\<lambda>e. snd e = c) xs"
proof (induction xs)
  case Nil
  show ?case by (simp add: sort_by_def)
next
  case (Cons x xs)
  have "sort_by (\<lambda>a b. descending (snd a) (snd b)) (x # xs)
        = insort_by (\<lambda>a b. descending (snd a) (snd b)) x
            (sort_by (\<lambda>a b. descending (snd a) (snd b)) xs)"
    by (simp add: sort_by_def)
  then show ?case
    by (simp add: filter_insort_by_desc[OF sorted_sort_by_desc] Cons.IH)
qed

section \<open>The pieces of a key\<close>

text \<open>The first piece starts with what has been read.\<close>

lemma split_str_first: "\<exists>w ws. split_str sep cur s = (cur @ w) # ws"
proof (induction sep cur s rule: split_str.induct)
  case (1 sep cur)
  show ?case by simp
next
  case (2 sep cur x xs)
  show ?case
  proof (cases "sep \<noteq> [] \<and> take (length sep) (x # xs) = sep")
    case True
    then show ?thesis by simp
  next
    case False
    with 2(2) obtain w ws where "split_str sep (cur @ [x]) xs = ((cur @ [x]) @ w) # ws" by blast
    with False have "split_str sep cur (x # xs) = (cur @ (x # w)) # ws" by simp
    then show ?thesis by blast
  qed
qed

lemma split_str_first_no_bar:
  "124 \<notin> set p \<Longrightarrow> \<exists>w ws. split_str [124, 124, 124] cur (p @ s) = (cur @ p @ w) # ws"
proof (induction p arbitrary: cur)
  case Nil
  show ?case using split_str_first[of "[124, 124, 124]" cur s] by simp
next
  case (Cons x p)
  then obtain w ws where "split_str [124, 124, 124] (cur @ [x]) (p @ s) = ((cur @ [x]) @ p @ w) # ws"
    by fastforce
  with Cons.prems show ?case by simp
qed

lemma split_str_first_hd:
  assumes "split_str sep [] s = p # ps"
  shows "p = [] \<or> (s \<noteq> [] \<and> hd p = hd s)"
proof (cases s)
  case Nil
  with assms show ?thesis by simp
next
  case (Cons x xs)
  show ?thesis
  proof (cases "sep \<noteq> [] \<and> take (length sep) (x # xs) = sep")
    case True
    with assms Cons show ?thesis by simp
  next
    case False
    then have "split_str sep [] (x # xs) = split_str sep [x] xs" by auto
    moreover obtain w ws where "split_str sep [x] xs = ([x] @ w) # ws"
      using split_str_first[of sep "[x]" xs] by blast
    ultimately have "p = x # w" using assms Cons by simp
    with Cons show ?thesis by simp
  qed
qed

lemma at_Cons_Suc: "at (x # xs) (Suc i) = at xs i"
  by (simp add: at_def)

lemma at_one_Cons: "at (x # xs) 1 = at xs 0"
  by (simp add: at_def)

lemma at_one_Cons_Cons: "at (x # y # xs) 1 = Some y"
  by (simp add: at_def)

lemma at_0_Some: "at xs 0 = Some n \<Longrightarrow> \<exists>ys. xs = n # ys"
  by (cases xs) (auto simp: at_def)

text \<open>The second piece of a key whose first label has no \<open>C\<close>, and whose second label
  starts with \<open>G\<close>, does not start with \<open>C\<close>.\<close>

lemma second_piece_not_C:
  "67 \<notin> set d \<Longrightarrow>
   at (split_str [124, 124, 124] cur (d @ [124, 124, 124] @ 71 # g)) 1 = Some n \<Longrightarrow>
   n = [] \<or> hd n \<noteq> 67"
proof (induction d arbitrary: cur)
  case Nil
  obtain w ws where "split_str [124, 124, 124] [71] g = ([71] @ w) # ws"
    using split_str_first[of "[124, 124, 124]" "[71]" g] by blast
  then have "split_str [124, 124, 124] cur ([] @ [124, 124, 124] @ 71 # g) = cur # (71 # w) # ws"
    by simp
  with Nil.prems(2) have "n = 71 # w" by (simp only: at_one_Cons_Cons option.inject)
  then show ?case by simp
next
  case (Cons x d)
  let ?S = "[124, 124, 124::nat]"
  let ?t = "d @ ?S @ 71 # g"
  show ?case
  proof (cases "?S \<noteq> [] \<and> take (length ?S) (x # ?t) = ?S")
    case False
    have "split_str ?S cur (x # ?t) = split_str ?S (cur @ [x]) ?t"
      by (simp only: split_str.simps False if_False)
    with Cons.prems(2) have "at (split_str ?S (cur @ [x]) ?t) 1 = Some n" by simp
    with Cons.IH[of "cur @ [x]"] Cons.prems(1) show ?thesis by simp
  next
    case True
    let ?rest = "drop 2 ?t"
    have "split_str ?S cur (x # ?t) = cur # split_str ?S [] (drop (length ?S - 1) ?t)"
      by (simp only: split_str.simps True if_True simp_thms)
    also have "length ?S - 1 = 2" by simp
    finally have "split_str ?S cur ((x # d) @ ?S @ 71 # g) = cur # split_str ?S [] ?rest"
      by (simp only: append_Cons)
    with Cons.prems(2) have "at (split_str ?S [] ?rest) 0 = Some n"
      by (simp only: at_one_Cons)
    then have "\<exists>ps. split_str ?S [] ?rest = n # ps" by (rule at_0_Some)
    then obtain ps where "split_str ?S [] ?rest = n # ps" ..
    from split_str_first_hd[OF this] have n: "n = [] \<or> (?rest \<noteq> [] \<and> hd n = hd ?rest)" .
    have "hd ?rest \<noteq> 67"
    proof (cases d)
      case Nil
      then show ?thesis by simp
    next
      case d1: (Cons a d')
      show ?thesis
      proof (cases d')
        case Nil
        with d1 show ?thesis by simp
      next
        case d2: (Cons b d'')
        with d1 Cons.prems(1) show ?thesis by (cases d'') auto
      qed
    qed
    with n show ?thesis by auto
  qed
qed

lemma startsWith_C_hd: "startsWith n (lit ''C: '') \<Longrightarrow> n \<noteq> [] \<and> hd n = 67"
  by (cases n) (auto simp: startsWith_def lit_C)

text \<open>The pieces of the two keys of a row.\<close>

lemma second_piece_prefix:
  assumes "124 \<notin> set c" "124 \<notin> set p"
      and "at (split (link_key c (p @ t)) (lit ''|||'')) 1 = Some n"
  shows "startsWith n p"
proof -
  obtain w ws where "split_str [124, 124, 124] [] (p @ t) = (p @ w) # ws"
    using split_str_first_no_bar[OF assms(2), of "[]" t] by auto
  then have "split (link_key c (p @ t)) (lit ''|||'') = c # (p @ w) # ws"
    by (simp add: split_link_key[OF assms(1)]) (simp add: split_def lit_bars)
  with assms(3) have "n = p @ w" by (simp only: at_one_Cons_Cons option.inject)
  then show ?thesis by (simp add: startsWith_def)
qed

lemma first_piece_prefix:
  assumes "124 \<notin> set p"
      and "at (split (link_key (p @ x) t) (lit ''|||'')) 0 = Some n"
  shows "startsWith n p"
proof -
  obtain w ws where "split_str [124, 124, 124] [] (p @ (x @ [124, 124, 124] @ t)) = (p @ w) # ws"
    using split_str_first_no_bar[OF assms(1), of "[]" "x @ [124, 124, 124] @ t"] by auto
  then have "split (link_key (p @ x) t) (lit ''|||'') = (p @ w) # ws"
    by (simp add: split_def link_key_def lit_bars)
  with assms(2) have "n = p @ w" by (simp only: at_Cons_0 option.inject)
  then show ?thesis by (simp add: startsWith_def)
qed

lemma gender_key_second_piece:
  assumes d: "124 \<notin> set d \<or> 67 \<notin> set d"
      and n: "at (split (link_key (lit ''D: '' @ d) (lit ''G: '' @ g)) (lit ''|||'')) 1 = Some n"
  shows "\<not> startsWith n (lit ''C: '')"
proof (cases "124 \<in> set d")
  case False
  then have "124 \<notin> set (lit ''D: '' @ d)" by (simp add: lit_D)
  moreover have "124 \<notin> set (lit ''G: '')" by (simp add: lit_G)
  ultimately have "startsWith n (lit ''G: '')" using n by (rule second_piece_prefix)
  then show ?thesis using startsWith_C_not_G by blast
next
  case True
  with d have "67 \<notin> set (lit ''D: '' @ d)" by (simp add: lit_D)
  moreover from n have "at (split_str [124, 124, 124] []
      ((lit ''D: '' @ d) @ [124, 124, 124] @ 71 # 58 # 32 # g)) 1 = Some n"
    by (simp add: split_def link_key_def lit_bars lit_G)
  ultimately have "n = [] \<or> hd n \<noteq> 67" by (rule second_piece_not_C)
  then show ?thesis using startsWith_C_hd by blast
qed

section \<open>The country tier under a focus\<close>

lemma distinct_set_singleton:
  assumes d: "distinct xs" and s: "set xs = {c}"
  shows "xs = [c]"
proof -
  from s obtain x ys where xs: "xs = x # ys" by (cases xs) auto
  from s xs have x: "x = c" by auto
  from d xs x have "c \<notin> set ys" by simp
  moreover from s xs have "set ys \<subseteq> {c}" by auto
  ultimately have "ys = []" by (cases ys) auto
  with xs x show ?thesis by simp
qed

text \<open>The country tier of the ordered names is the sorted list of the names that start
  with \<open>C: \<close>.\<close>

lemma country_tier_ordered:
  "filter (\<lambda>n. startsWith n (lit ''C: '')) (ordered_of rows)
   = sort (filter (\<lambda>n. startsWith n (lit ''C: '')) (names_of rows))"
proof -
  have d: "filter (\<lambda>n. startsWith n (lit ''C: '')) (filter (\<lambda>n. startsWith n (lit ''D: '')) xs) = []" for xs
    by (auto simp: filter_empty_conv dest: startsWith_C_not_D)
  have g: "filter (\<lambda>n. startsWith n (lit ''C: '')) (filter (\<lambda>n. startsWith n (lit ''G: '')) xs) = []" for xs
    by (auto simp: filter_empty_conv dest: startsWith_C_not_G)
  have c: "filter (\<lambda>n. startsWith n (lit ''C: '')) (filter (\<lambda>n. startsWith n (lit ''C: '')) xs)
         = filter (\<lambda>n. startsWith n (lit ''C: '')) xs" for xs
    by simp
  show ?thesis
    unfolding ordered_of_def filter_append filter_sort c d g by simp
qed

lemma country_names_of_focus:
  assumes rows: "\<forall>e \<in> set rows. e_country e = F \<and>
                   (124 \<notin> set (e_discipline e) \<or> 67 \<notin> set (e_discipline e))"
      and F: "124 \<notin> set F"
  shows "set (filter (\<lambda>n. startsWith n (lit ''C: '')) (names_of rows))
         = (if rows = [] then {} else {lit ''C: '' @ F})"
proof -
  have cbar: "124 \<notin> set (lit ''C: '' @ F)" using F by (simp add: lit_C)
  have dbar: "124 \<notin> set (lit ''D: '')" by (simp add: lit_D)
  have only: "n = lit ''C: '' @ F"
    if n: "n \<in> set (names_of rows)" and sw: "startsWith n (lit ''C: '')" for n
  proof -
    from n have "\<exists>r \<in> set rows. \<exists>k \<in> set (row_keys r).
        at (split k (lit ''|||'')) 0 = Some n \<or> at (split k (lit ''|||'')) 1 = Some n"
      by (simp only: in_names_of)
    then obtain r where r: "r \<in> set rows" and rk: "\<exists>k \<in> set (row_keys r).
        at (split k (lit ''|||'')) 0 = Some n \<or> at (split k (lit ''|||'')) 1 = Some n" ..
    from rk obtain k where k: "k \<in> set (row_keys r)"
      and pc: "at (split k (lit ''|||'')) 0 = Some n \<or> at (split k (lit ''|||'')) 1 = Some n" ..
    from rows r have rF: "e_country r = F"
      and rd: "124 \<notin> set (e_discipline r) \<or> 67 \<notin> set (e_discipline r)" by auto
    from k consider
        (country) "k = link_key (lit ''C: '' @ F) (lit ''D: '' @ e_discipline r)"
      | (gender) "k = link_key (lit ''D: '' @ e_discipline r) (lit ''G: '' @ e_gender r)"
      by (auto simp: row_keys_def rF)
    then show ?thesis
    proof cases
      case country
      from pc show ?thesis
      proof
        assume "at (split k (lit ''|||'')) 0 = Some n"
        then show ?thesis by (simp add: country split_link_key[OF cbar] at_Cons_0)
      next
        assume "at (split k (lit ''|||'')) 1 = Some n"
        then have "startsWith n (lit ''D: '')"
          unfolding country by (rule second_piece_prefix[OF cbar dbar])
        with sw show ?thesis using startsWith_C_not_D by blast
      qed
    next
      case gender
      from pc show ?thesis
      proof
        assume "at (split k (lit ''|||'')) 0 = Some n"
        then have "startsWith n (lit ''D: '')"
          unfolding gender by (rule first_piece_prefix[OF dbar])
        with sw show ?thesis using startsWith_C_not_D by blast
      next
        assume "at (split k (lit ''|||'')) 1 = Some n"
        then have "\<not> startsWith n (lit ''C: '')"
          unfolding gender by (rule gender_key_second_piece[OF rd])
        with sw show ?thesis by contradiction
      qed
    qed
  qed
  have there: "lit ''C: '' @ F \<in> set (names_of rows)" if "rows \<noteq> []"
  proof -
    from that obtain r where r: "r \<in> set rows" by (cases rows) auto
    with rows have rF: "e_country r = F" by auto
    have "link_key (lit ''C: '' @ F) (lit ''D: '' @ e_discipline r) \<in> set (row_keys r)"
      by (simp add: row_keys_def rF)
    moreover have "at (split (link_key (lit ''C: '' @ F) (lit ''D: '' @ e_discipline r)) (lit ''|||'')) 0
                   = Some (lit ''C: '' @ F)"
      by (simp add: split_link_key[OF cbar] at_Cons_0)
    ultimately show ?thesis using r unfolding in_names_of by blast
  qed
  show ?thesis
  proof (cases "rows = []")
    case True
    then have "names_of rows = []"
      by (simp add: names_of_def linksMap_Nil linksNamed_Nil nodeNames_def new_Set_Nil)
    with True show ?thesis by simp
  next
    case False
    have "set (filter (\<lambda>n. startsWith n (lit ''C: '')) (names_of rows)) = {lit ''C: '' @ F}"
    proof (rule set_eqI)
      fix n
      show "n \<in> set (filter (\<lambda>n. startsWith n (lit ''C: '')) (names_of rows))
            \<longleftrightarrow> n \<in> {lit ''C: '' @ F}"
      proof
        assume "n \<in> set (filter (\<lambda>n. startsWith n (lit ''C: '')) (names_of rows))"
        then have "n \<in> set (names_of rows)" "startsWith n (lit ''C: '')" by simp_all
        then have "n = lit ''C: '' @ F" by (rule only)
        then show "n \<in> {lit ''C: '' @ F}" by simp
      next
        assume "n \<in> {lit ''C: '' @ F}"
        then have "n = lit ''C: '' @ F" by simp
        with there[OF False] show "n \<in> set (filter (\<lambda>n. startsWith n (lit ''C: '')) (names_of rows))"
          by (simp add: startsWith_append)
      qed
    qed
    with False show ?thesis by simp
  qed
qed

lemma country_tier_of_focus:
  assumes rows: "\<forall>e \<in> set rows. e_country e = F \<and>
                   (124 \<notin> set (e_discipline e) \<or> 67 \<notin> set (e_discipline e))"
      and F: "124 \<notin> set F"
  shows "filter (\<lambda>n. startsWith n (lit ''C: '')) (ordered_of rows)
         = (if rows = [] then [] else [lit ''C: '' @ F])"
proof -
  let ?cs = "sort (filter (\<lambda>n. startsWith n (lit ''C: '')) (names_of rows))"
  have s: "set ?cs = (if rows = [] then {} else {lit ''C: '' @ F})"
    using country_names_of_focus[OF rows F] by simp
  have d: "distinct ?cs" by (simp add: distinct_names_of)
  show ?thesis
  proof (cases "rows = []")
    case True
    with s show ?thesis by (simp add: country_tier_ordered)
  next
    case False
    with s have "set ?cs = {lit ''C: '' @ F}" by simp
    with d have "?cs = [lit ''C: '' @ F]" by (rule distinct_set_singleton)
    with False show ?thesis by (simp add: country_tier_ordered)
  qed
qed

lemma filter_nodes_names:
  "map name (filter (\<lambda>n. startsWith (name n) p) (map (\<lambda>n. \<lparr>name = n\<rparr>) xs))
   = filter (\<lambda>n. startsWith n p) xs"
  by (induction xs) auto

section \<open>Counting keys\<close>

lemma map_get_keyed:
  "map_get (map (\<lambda>k. (k, f k)) ks) a = (if a \<in> set ks then Some (f a) else None)"
  by (induction ks) auto

lemma map_set_keyed:
  "distinct ks \<Longrightarrow> a \<in> set ks \<Longrightarrow>
   map_set (map (\<lambda>k. (k, f k)) ks) a v = map (\<lambda>k. (k, if k = a then v else f k)) ks"
proof (induction ks)
  case Nil
  then show ?case by simp
next
  case (Cons k ks)
  show ?case
  proof (cases "k = a")
    case True
    with Cons.prems have "a \<notin> set ks" by simp
    then have "map (\<lambda>k. (k, f k)) ks = map (\<lambda>k. (k, if k = a then v else f k)) ks"
      by (induction ks) auto
    with True show ?thesis by simp
  next
    case False
    with Cons show ?thesis by auto
  qed
qed

lemma new_Set_snoc: "new_Set (xs @ [x]) = set_add (new_Set xs) x"
  by (simp add: new_Set_def)

lemma new_Set_snoc_old: "x \<in> set xs \<Longrightarrow> new_Set (xs @ [x]) = new_Set xs"
  by (simp add: new_Set_snoc set_add_def set_new_Set)

lemma new_Set_snoc_new: "x \<notin> set xs \<Longrightarrow> new_Set (xs @ [x]) = new_Set xs @ [x]"
  by (simp add: new_Set_snoc set_add_def set_new_Set)

text \<open>The groups of \<open>rollup\<close>: the keys in the order in which they are first seen, each
  with its values in their order.\<close>

lemma groups_char:
  "foldl (\<lambda>groups x. group_push groups (key x) x) [] vals
   = map (\<lambda>k. (k, filter (\<lambda>x. key x = k) vals)) (new_Set (map key vals))"
proof (induction vals rule: rev_induct)
  case Nil
  show ?case by (simp add: new_Set_Nil)
next
  case (snoc x vals)
  let ?ks = "new_Set (map key vals)"
  let ?G = "map (\<lambda>k. (k, filter (\<lambda>y. key y = k) vals)) ?ks"
  have lhs: "foldl (\<lambda>groups x. group_push groups (key x) x) [] (vals @ [x]) = group_push ?G (key x) x"
    by (simp only: foldl_append foldl.simps snoc.IH)
  show ?case
  proof (cases "key x \<in> set ?ks")
    case True
    then have old: "new_Set (map key (vals @ [x])) = ?ks"
      by (simp add: new_Set_snoc_old set_new_Set)
    from True have "group_push ?G (key x) x
      = map (\<lambda>k. (k, if k = key x then filter (\<lambda>y. key y = key x) vals @ [x]
                      else filter (\<lambda>y. key y = k) vals)) ?ks"
      by (simp add: group_push_def map_get_keyed map_set_keyed distinct_new_Set)
    also have "\<dots> = map (\<lambda>k. (k, filter (\<lambda>y. key y = k) (vals @ [x]))) ?ks"
      by (rule map_cong) auto
    finally show ?thesis by (simp only: lhs old)
  next
    case False
    then have nk: "key x \<notin> key ` set vals" by (simp add: set_new_Set)
    then have new: "new_Set (map key (vals @ [x])) = ?ks @ [key x]"
      by (simp add: new_Set_snoc_new)
    have fresh: "key x \<notin> fst ` set ?G" using False by (auto simp: image_iff)
    have a: "?G = map (\<lambda>k. (k, filter (\<lambda>y. key y = k) (vals @ [x]))) ?ks"
      using False by (intro map_cong) auto
    have b: "[(key x, [x])] = map (\<lambda>k. (k, filter (\<lambda>y. key y = k) (vals @ [x]))) [key x]"
    proof -
      have "\<forall>y \<in> set vals. key y \<noteq> key x"
      proof
        fix y assume "y \<in> set vals"
        then have "key y \<in> key ` set vals" by (rule imageI)
        with nk show "key y \<noteq> key x" by metis
      qed
      then have "filter (\<lambda>y. key y = key x) vals = []"
        by (simp add: filter_empty_conv)
      then show ?thesis by simp
    qed
    from False have "group_push ?G (key x) x = ?G @ [(key x, [x])]"
      by (simp add: group_push_def map_get_keyed map_set_fresh[OF fresh])
    also have "\<dots> = map (\<lambda>k. (k, filter (\<lambda>y. key y = k) (vals @ [x]))) (?ks @ [key x])"
      unfolding map_append using a b by simp
    finally show ?thesis by (simp only: lhs new)
  qed
qed

lemma rollup_char:
  "rollup vals reduce key
   = map (\<lambda>k. (k, reduce (filter (\<lambda>x. key x = k) vals))) (new_Set (map key vals))"
  by (simp add: rollup_def groups_char)

text \<open>The counts of the countries: the countries in the order in which they are first
  seen, each with the number of its rows. With the stable sort this is the tie-break of
  the top selection.\<close>

lemma countryCounts_char:
  "countryCounts rows
   = map (\<lambda>k. (k, length (filter (\<lambda>d. c_country d = k) rows))) (new_Set (map c_country rows))"
  by (simp only: countryCounts_def rollup_char)

lemma discCounts_char:
  "discCounts rows
   = map (\<lambda>k. (k, length (filter (\<lambda>d. e_discipline d = k) rows))) (new_Set (map e_discipline rows))"
  by (simp only: discCounts_def rollup_char)

text \<open>The map of the links counts the keys, in the order in which they are first seen.\<close>

lemma addLink_bump: "addLink m s t (Suc 0) = bump m (link_key s t)"
  by (simp add: addLink_def bump_def Let_def)

lemma addLink_foldl_keys:
  "foldl (\<lambda>m r.
        let c = lit ''C: '' @ e_country r;
            p = lit ''D: '' @ e_discipline r;
            g = lit ''G: '' @ e_gender r
        in addLink (addLink m c p 1) p g 1) m rows
   = foldl bump m (concat (map row_keys rows))"
  by (induction rows arbitrary: m) (simp_all add: Let_def addLink_bump row_keys_def)

lemma counts_char:
  "foldl bump [] ks = map (\<lambda>k. (k, count_list ks k)) (new_Set ks)"
proof (induction ks rule: rev_induct)
  case Nil
  show ?case by (simp add: new_Set_Nil)
next
  case (snoc a ks)
  let ?M = "map (\<lambda>k. (k, count_list ks k)) (new_Set ks)"
  have lhs: "foldl bump [] (ks @ [a]) = bump ?M a"
    by (simp only: foldl_append foldl.simps snoc.IH)
  show ?case
  proof (cases "a \<in> set ks")
    case True
    then have "bump ?M a
       = map (\<lambda>k. (k, if k = a then count_list ks a + 1 else count_list ks k)) (new_Set ks)"
      by (simp add: bump_def map_get_keyed map_set_keyed set_new_Set distinct_new_Set)
    also have "\<dots> = map (\<lambda>k. (k, count_list (ks @ [a]) k)) (new_Set ks)"
      by (rule map_cong) auto
    finally show ?thesis by (simp only: lhs new_Set_snoc_old[OF True])
  next
    case False
    then have fresh: "a \<notin> fst ` set ?M" by (auto simp: image_iff set_new_Set)
    have x: "?M = map (\<lambda>k. (k, count_list (ks @ [a]) k)) (new_Set ks)"
      using False by (intro map_cong) (auto simp: set_new_Set)
    have y: "[(a, 1::nat)] = map (\<lambda>k. (k, count_list (ks @ [a]) k)) [a]"
      using False by simp
    from False have "bump ?M a = ?M @ [(a, 1)]"
      by (simp add: bump_def map_get_keyed set_new_Set map_set_fresh[OF fresh])
    also have "\<dots> = map (\<lambda>k. (k, count_list (ks @ [a]) k)) (new_Set ks @ [a])"
      unfolding map_append using x y by simp
    finally show ?thesis by (simp only: lhs new_Set_snoc_new[OF False])
  qed
qed

lemma linksMap_char:
  "linksMap rows
   = map (\<lambda>k. (k, count_list (concat (map row_keys rows)) k)) (new_Set (concat (map row_keys rows)))"
  by (simp only: linksMap_def addLink_foldl_keys counts_char)

section \<open>The input twice\<close>

lemma foldl_set_add_old: "set ys \<subseteq> set acc \<Longrightarrow> foldl set_add acc ys = acc"
  by (induction ys arbitrary: acc) (auto simp: set_add_def)

lemma new_Set_twice: "new_Set (xs @ xs) = new_Set xs"
proof -
  have "new_Set (xs @ xs) = foldl set_add (new_Set xs) xs"
    by (simp add: new_Set_def)
  also have "\<dots> = new_Set xs"
    by (rule foldl_set_add_old) (simp add: set_new_Set)
  finally show ?thesis .
qed

lemma cleaned_append: "cleaned (a @ b) = cleaned a @ cleaned b"
  by (simp add: cleaned_def)

lemma base_append: "base (a @ b) sel = base a sel @ base b sel"
  by (simp add: base_def)

lemma exploded_append: "exploded (a @ b) = exploded a @ exploded b"
  by (simp add: exploded_def)

lemma rollup_length_twice:
  "rollup (vals @ vals) length key = map dbl (rollup vals length key)"
  by (simp add: rollup_char new_Set_twice dbl_def)

lemma insort_by_dbl:
  "insort_by (\<lambda>a b. descending (snd a) (snd b)) (dbl x) (map dbl ys)
   = map dbl (insort_by (\<lambda>a b. descending (snd a) (snd b)) x ys)"
  by (induction ys) (auto simp: dbl_def descending_def)

lemma sort_by_dbl:
  "sort_by (\<lambda>a b. descending (snd a) (snd b)) (map dbl xs)
   = map dbl (sort_by (\<lambda>a b. descending (snd a) (snd b)) xs)"
  by (induction xs) (simp_all add: sort_by_def insort_by_dbl)

lemma slice0_map: "slice0 (map f xs) n = map f (slice0 xs n)"
  by (simp add: slice0_def take_map)

lemma topSet_dbl: "topSet (map dbl counts) n = topSet counts n"
proof -
  have "map fst (map dbl xs) = map fst xs" for xs :: "(jsstring \<times> nat) list"
    by (simp add: dbl_def)
  then show ?thesis by (simp only: topSet_def sort_by_dbl slice0_map)
qed

lemma topCountrySet_twice: "topCountrySet (rows @ rows) n = topCountrySet rows n"
  by (simp only: topCountrySet_def countryCounts_def rollup_length_twice topSet_dbl)

lemma topDiscSet_twice: "topDiscSet (rows @ rows) n = topDiscSet rows n"
  by (simp only: topDiscSet_def discCounts_def rollup_length_twice topSet_dbl)

lemma filteredCountries_twice:
  "filteredCountries (rows @ rows) n sel = filteredCountries rows n sel @ filteredCountries rows n sel"
  by (simp add: filteredCountries_def topCountrySet_twice)

lemma finalRows_twice: "finalRows (rows @ rows) n = finalRows rows n @ finalRows rows n"
  by (simp add: finalRows_def topDiscSet_twice)

lemma final_rows_of_twice:
  "finalRows (exploded (filteredCountries (base (cleaned (data @ data)) sel) tc sel)) td
   = finalRows (exploded (filteredCountries (base (cleaned data) sel) tc sel)) td @
     finalRows (exploded (filteredCountries (base (cleaned data) sel) tc sel)) td"
  by (simp only: cleaned_append base_append filteredCountries_twice exploded_append finalRows_twice)

lemma linksMap_twice: "linksMap (rows @ rows) = map dbl (linksMap rows)"
  by (simp add: linksMap_char new_Set_twice dbl_def)

lemma linksNamed_dbl:
  "linksNamed (map dbl m) = map (\<lambda>l. l\<lparr>l_value := 2 * l_value l\<rparr>) (linksNamed m)"
  by (induction m) (auto simp: linksNamed_def dbl_def Let_def)

lemma nodeNames_dbl:
  "nodeNames (map (\<lambda>l. l\<lparr>l_value := 2 * l_value l\<rparr>) ls) = nodeNames ls"
  by (simp add: nodeNames_def o_def)

lemma order_nodes_dbl:
  "order_nodes (map (\<lambda>l. l\<lparr>l_value := 2 * l_value l\<rparr>) ls) = order_nodes ls"
  by (simp only: order_nodes_def nodeNames_dbl)

lemma index_links_dbl:
  "index_links ordered (map (\<lambda>l. l\<lparr>l_value := 2 * l_value l\<rparr>) ls)
   = \<lparr>nodes = nodes (index_links ordered ls),
      links = map (\<lambda>l. \<lparr>source = source l, target = target l, value = 2 * value l\<rparr>)
                (links (index_links ordered ls))\<rparr>"
  by (simp add: index_links_def Let_def o_def)

text \<open>
  On the input followed by itself the graph has the same nodes and the same links, each
  link with twice its weight: the second half of C2, which holds for every input.
\<close>

theorem doubled_input_doubles_weights:
  "\<exists>g. graph data tc td sel = Inr g \<and>
        graph (data @ data) tc td sel
          = Inr \<lparr>nodes = nodes g,
                 links = map (\<lambda>l. \<lparr>source = source l, target = target l, value = 2 * value l\<rparr>)
                           (links g)\<rparr>"
proof -
  let ?final = "finalRows (exploded (filteredCountries (base (cleaned data) sel) tc sel)) td"
  let ?ls = "linksNamed (linksMap ?final)"
  let ?g = "index_links (ordered_of ?final) ?ls"
  have g: "graph data tc td sel = Inr ?g" by (rule graph_Inr)
  have ls2: "linksNamed (linksMap (?final @ ?final)) = map (\<lambda>l. l\<lparr>l_value := 2 * l_value l\<rparr>) ?ls"
    by (simp only: linksMap_twice linksNamed_dbl)
  have "graph (data @ data) tc td sel = graph_of_rows (?final @ ?final)"
    by (simp only: graph_unfold final_rows_of_twice)
  also have "\<dots> = Inr (index_links (ordered_of ?final) (map (\<lambda>l. l\<lparr>l_value := 2 * l_value l\<rparr>) ?ls))"
    unfolding graph_of_rows_def Let_def ls2 order_nodes_dbl order_nodes_rows by simp
  finally have "graph (data @ data) tc td sel
      = Inr \<lparr>nodes = nodes ?g,
             links = map (\<lambda>l. \<lparr>source = source l, target = target l, value = 2 * value l\<rparr>)
                       (links ?g)\<rparr>"
    by (simp only: index_links_dbl)
  with g show ?thesis by blast
qed

section \<open>Rows without bars\<close>

lemma clean_bar_free:
  assumes "124 \<notin> set (case v of None \<Rightarrow> [] | Some s \<Rightarrow> s)" "124 \<notin> set fallback"
  shows "124 \<notin> set (clean v fallback)"
  using assms set_trim[of "case v of None \<Rightarrow> [] | Some s \<Rightarrow> s"]
  by (auto simp: clean_def Let_def)

lemma splitDisciplines_bar_free:
  assumes "124 \<notin> set s" "d \<in> set (splitDisciplines s)"
  shows "124 \<notin> set d"
  using splitDisciplines_cases[OF assms(2)] assms(1) by (auto simp: is_sep_def)

lemma set_filteredCountries_base:
  "set (filteredCountries (base rows sel) tc sel) \<subseteq> set rows"
  by (auto simp: filteredCountries_def base_def)

lemma in_exploded_iff:
  "e \<in> set (exploded rows) \<longleftrightarrow>
   (\<exists>cr \<in> set rows. e_country e = c_country cr \<and> e_gender e = c_gender cr \<and>
      e_discipline e \<in> set (splitDisciplines (c_disciplineRaw cr)))"
  by (auto simp: exploded_def) (cases e, force)

lemma final_rows_bar_free:
  assumes data: "\<forall>r \<in> set data. bar_free r"
      and e: "e \<in> set (finalRows (exploded (filteredCountries (base (cleaned data) sel) tc sel)) td)"
  shows "row_bar_free e"
proof -
  from e set_finalRows have "e \<in> set (exploded (filteredCountries (base (cleaned data) sel) tc sel))"
    by blast
  then obtain cr where cr: "cr \<in> set (filteredCountries (base (cleaned data) sel) tc sel)"
    and ec: "e_country e = c_country cr" and eg: "e_gender e = c_gender cr"
    and ed: "e_discipline e \<in> set (splitDisciplines (c_disciplineRaw cr))"
    unfolding in_exploded_iff by blast
  from cr set_filteredCountries_base have "cr \<in> set (cleaned data)" by blast
  then obtain r where r: "r \<in> set data"
    and crr: "cr = \<lparr>c_country = clean (country r) (lit ''Unknown Country''),
               c_disciplineRaw = clean (disciplines r) (lit ''Unknown Discipline''),
               c_gender = clean (gender r) (lit ''Unknown'')\<rparr>"
    by (auto simp: cleaned_def)
  from data r have bf: "bar_free r" by blast
  have "124 \<notin> set (c_country cr)"
    using bf by (simp add: crr bar_free_def clean_bar_free lit_def)
  moreover have "124 \<notin> set (c_gender cr)"
    using bf by (simp add: crr bar_free_def clean_bar_free lit_def)
  moreover have "124 \<notin> set (c_disciplineRaw cr)"
    using bf by (simp add: crr bar_free_def clean_bar_free lit_def)
  then have "124 \<notin> set (e_discipline e)" using ed by (rule splitDisciplines_bar_free)
  ultimately show ?thesis by (simp add: row_bar_free_def ec eg)
qed

lemma split_pair:
  assumes "124 \<notin> set s" "124 \<notin> set t"
  shows "split (link_key s t) (lit ''|||'') = [s, t]"
  using split_str_no_bar_end[OF assms(2), of "[]"]
  by (simp add: split_link_key[OF assms(1)]) (simp add: split_def lit_bars)

lemma link_key_inj:
  assumes "124 \<notin> set s" "124 \<notin> set t" "124 \<notin> set s'" "124 \<notin> set t'"
      and "link_key s t = link_key s' t'"
  shows "s = s' \<and> t = t'"
proof -
  have "[s, t] = split (link_key s t) (lit ''|||'')" using assms(1,2) by (simp add: split_pair)
  also have "\<dots> = [s', t']" using assms(3,4) by (simp add: assms(5) split_pair)
  finally show ?thesis by simp
qed

lemma row_keys_pairs: "row_keys r = map (\<lambda>(s, t). link_key s t) (row_pairs r)"
  by (simp add: row_keys_def row_pairs_def)

lemma row_pairs_bar_free:
  assumes "row_bar_free e" "(s, t) \<in> set (row_pairs e)"
  shows "124 \<notin> set s \<and> 124 \<notin> set t"
  using assms by (auto simp: row_bar_free_def row_pairs_def lit_C lit_D lit_G)

lemma row_pairs_tiers:
  assumes "(s, t) \<in> set (row_pairs e)"
  shows "(startsWith s (lit ''C: '') \<and> startsWith t (lit ''D: '')) \<or>
         (startsWith s (lit ''D: '') \<and> startsWith t (lit ''G: ''))"
  using assms by (auto simp: row_pairs_def startsWith_append)

text \<open>The keys of rows without bars are the keys of their pairs, and split into them.\<close>

lemma key_of_rows:
  assumes rows: "\<forall>e \<in> set rows. row_bar_free e"
      and k: "k \<in> fst ` set (linksMap rows)"
  obtains e s t where "e \<in> set rows" "(s, t) \<in> set (row_pairs e)" "k = link_key s t"
    "124 \<notin> set s" "124 \<notin> set t" "split k (lit ''|||'') = [s, t]"
proof -
  from k obtain e where e: "e \<in> set rows" and "k \<in> set (row_keys e)"
    unfolding keys_linksMap by blast
  then obtain s t where st: "(s, t) \<in> set (row_pairs e)" and ks: "k = link_key s t"
    by (auto simp: row_keys_pairs)
  from rows e have "row_bar_free e" by blast
  then have nb: "124 \<notin> set s \<and> 124 \<notin> set t" using st by (rule row_pairs_bar_free)
  then have "split k (lit ''|||'') = [s, t]" by (simp add: ks split_pair)
  with e st ks nb show ?thesis using that by blast
qed

lemma pair_key_in_linksMap:
  assumes "e \<in> set rows" "(s, t) \<in> set (row_pairs e)"
  shows "link_key s t \<in> fst ` set (linksMap rows)"
  unfolding keys_linksMap using assms by (force simp: row_keys_pairs)

lemma linksNamed_char:
  "linksNamed (linksMap rows)
   = map (\<lambda>k. \<lparr>l_source = at (split k (lit ''|||'')) 0, l_target = at (split k (lit ''|||'')) 1,
                l_value = count_list (concat (map row_keys rows)) k\<rparr>)
       (new_Set (concat (map row_keys rows)))"
  by (simp add: linksNamed_def Let_def linksMap_char o_def)

lemma names_of_bar_free:
  assumes rows: "\<forall>e \<in> set rows. row_bar_free e"
  shows "set (names_of rows) = (\<Union>e \<in> set rows. \<Union>(s, t) \<in> set (row_pairs e). {s, t})"
proof (rule set_eqI)
  fix n
  have step: "(at (split k (lit ''|||'')) 0 = Some n \<or> at (split k (lit ''|||'')) 1 = Some n)
              \<longleftrightarrow> (\<exists>s t. (s, t) \<in> set (row_pairs e) \<and> k = link_key s t \<and> (n = s \<or> n = t))"
    if e: "e \<in> set rows" and k: "k \<in> set (row_keys e)" for e k
  proof -
    from k obtain s t where st: "(s, t) \<in> set (row_pairs e)" and ks: "k = link_key s t"
      by (auto simp: row_keys_pairs)
    from rows e have bf: "row_bar_free e" by blast
    then have nb: "124 \<notin> set s \<and> 124 \<notin> set t" using st by (rule row_pairs_bar_free)
    then have sp: "split k (lit ''|||'') = [s, t]" by (simp add: ks split_pair)
    show ?thesis
    proof
      assume "at (split k (lit ''|||'')) 0 = Some n \<or> at (split k (lit ''|||'')) 1 = Some n"
      then have "n = s \<or> n = t" by (auto simp: sp at_def)
      with st ks show "\<exists>s t. (s, t) \<in> set (row_pairs e) \<and> k = link_key s t \<and> (n = s \<or> n = t)"
        by blast
    next
      assume "\<exists>s t. (s, t) \<in> set (row_pairs e) \<and> k = link_key s t \<and> (n = s \<or> n = t)"
      then obtain s' t' where st': "(s', t') \<in> set (row_pairs e)" and ks': "k = link_key s' t'"
        and n: "n = s' \<or> n = t'" by blast
      from bf st' have "124 \<notin> set s' \<and> 124 \<notin> set t'" by (rule row_pairs_bar_free)
      with nb ks ks' have "s = s' \<and> t = t'" by (intro link_key_inj) auto
      with n show "at (split k (lit ''|||'')) 0 = Some n \<or> at (split k (lit ''|||'')) 1 = Some n"
        by (auto simp: sp at_def)
    qed
  qed
  show "n \<in> set (names_of rows) \<longleftrightarrow> n \<in> (\<Union>e \<in> set rows. \<Union>(s, t) \<in> set (row_pairs e). {s, t})"
  proof
    assume "n \<in> set (names_of rows)"
    then obtain e k where e: "e \<in> set rows" and k: "k \<in> set (row_keys e)"
      and "at (split k (lit ''|||'')) 0 = Some n \<or> at (split k (lit ''|||'')) 1 = Some n"
      unfolding in_names_of by blast
    with step[OF e k] obtain s t where "(s, t) \<in> set (row_pairs e)" "n = s \<or> n = t" by blast
    with e show "n \<in> (\<Union>e \<in> set rows. \<Union>(s, t) \<in> set (row_pairs e). {s, t})" by blast
  next
    assume "n \<in> (\<Union>e \<in> set rows. \<Union>(s, t) \<in> set (row_pairs e). {s, t})"
    then obtain e s t where e: "e \<in> set rows" and st: "(s, t) \<in> set (row_pairs e)"
      and n: "n = s \<or> n = t" by blast
    from st have k: "link_key s t \<in> set (row_keys e)" by (force simp: row_keys_pairs)
    from step[OF e k] st n
    have "at (split (link_key s t) (lit ''|||'')) 0 = Some n \<or>
          at (split (link_key s t) (lit ''|||'')) 1 = Some n" by blast
    with e k show "n \<in> set (names_of rows)" unfolding in_names_of by blast
  qed
qed

lemma names_of_tiers:
  "set (names_of rows) \<subseteq> (\<Union>e \<in> set rows. \<Union>(s, t) \<in> set (row_pairs e). {s, t}) \<Longrightarrow>
   n \<in> set (names_of rows) \<Longrightarrow>
   startsWith n (lit ''C: '') \<or> startsWith n (lit ''D: '') \<or> startsWith n (lit ''G: '')"
  using row_pairs_tiers by blast

lemma set_ordered_of_bar_free:
  assumes "\<forall>e \<in> set rows. row_bar_free e"
  shows "set (ordered_of rows) = set (names_of rows)"
  using names_of_tiers[of rows] names_of_bar_free[OF assms]
  by (auto simp: set_ordered_of)

text \<open>Counting over the distinct elements.\<close>

lemma sum_indicator_distinct:
  "distinct xs \<Longrightarrow>
   sum_list (map (\<lambda>p. if p = a then 1 else 0) (filter P xs)) = (if a \<in> set xs \<and> P a then 1::nat else 0)"
  by (induction xs) auto

lemma sum_counts_new_Set:
  "sum_list (map (count_list xs) (filter P (new_Set xs))) = length (filter P xs)"
proof (induction xs rule: rev_induct)
  case Nil
  show ?case by (simp add: new_Set_Nil)
next
  case (snoc a xs)
  have split_count: "count_list (xs @ [a]) p = count_list xs p + (if p = a then 1 else 0)" for p
    by simp
  show ?case
  proof (cases "a \<in> set xs")
    case True
    have "sum_list (map (count_list (xs @ [a])) (filter P (new_Set xs)))
          = sum_list (map (count_list xs) (filter P (new_Set xs)))
            + sum_list (map (\<lambda>p. if p = a then 1 else 0) (filter P (new_Set xs)))"
      unfolding split_count by (simp add: sum_list_addf)
    also have "\<dots> = length (filter P xs) + (if P a then 1 else 0)"
      using True by (simp add: snoc.IH sum_indicator_distinct distinct_new_Set set_new_Set)
    finally have A: "sum_list (map (count_list (xs @ [a])) (filter P (new_Set xs)))
        = length (filter P xs) + (if P a then 1 else 0)" .
    have B: "length (filter P (xs @ [a])) = length (filter P xs) + (if P a then 1 else 0)"
      by simp
    show ?thesis by (simp only: new_Set_snoc_old[OF True] A B)
  next
    case False
    have "map (count_list (xs @ [a])) (filter P (new_Set xs))
          = map (count_list xs) (filter P (new_Set xs))"
      using False by (intro map_cong) (auto simp: set_new_Set)
    then have "sum_list (map (count_list (xs @ [a])) (filter P (new_Set xs))) = length (filter P xs)"
      by (simp only: snoc.IH)
    moreover have "count_list (xs @ [a]) a = 1" using False by simp
    ultimately show ?thesis
      by (simp add: new_Set_snoc_new[OF False] del: count_list_append)
  qed
qed

lemma length_filter_concat:
  "(\<And>e. e \<in> set rows \<Longrightarrow> length (filter Q (f e)) = (if R e then 1 else 0)) \<Longrightarrow>
   length (filter Q (concat (map f rows))) = length (filter R rows)"
  by (induction rows) auto

text \<open>The tiers of the names of rows without bars.\<close>

lemma sort_distinct: "distinct xs \<Longrightarrow> sort xs = sorted_list_of_set (set xs)"
  by (simp add: sorted_list_of_set_sort_remdups distinct_remdups_id)

lemma tier_C:
  assumes "\<forall>e \<in> set rows. row_bar_free e"
  shows "set (filter (\<lambda>n. startsWith n (lit ''C: '')) (names_of rows))
         = (\<lambda>e. lit ''C: '' @ e_country e) ` set rows"
proof (rule set_eqI)
  fix n
  show "n \<in> set (filter (\<lambda>n. startsWith n (lit ''C: '')) (names_of rows))
        \<longleftrightarrow> n \<in> (\<lambda>e. lit ''C: '' @ e_country e) ` set rows"
  proof
    assume "n \<in> set (filter (\<lambda>n. startsWith n (lit ''C: '')) (names_of rows))"
    then have n: "n \<in> set (names_of rows)" and sw: "startsWith n (lit ''C: '')" by simp_all
    from n obtain e s t where e: "e \<in> set rows" and st: "(s, t) \<in> set (row_pairs e)"
      and ns: "n = s \<or> n = t"
      unfolding names_of_bar_free[OF assms] by blast
    from st ns consider "n = lit ''C: '' @ e_country e" | "n = lit ''D: '' @ e_discipline e"
      | "n = lit ''G: '' @ e_gender e"
      by (auto simp: row_pairs_def)
    then have "n = lit ''C: '' @ e_country e"
    proof cases
      case 1 then show ?thesis .
    next
      case 2
      then have "startsWith n (lit ''D: '')" by (simp add: startsWith_append)
      with sw show ?thesis using startsWith_C_not_D by blast
    next
      case 3
      then have "startsWith n (lit ''G: '')" by (simp add: startsWith_append)
      with sw show ?thesis using startsWith_C_not_G by blast
    qed
    with e show "n \<in> (\<lambda>e. lit ''C: '' @ e_country e) ` set rows" by blast
  next
    assume "n \<in> (\<lambda>e. lit ''C: '' @ e_country e) ` set rows"
    then obtain e where e: "e \<in> set rows" and n: "n = lit ''C: '' @ e_country e" by blast
    have "(lit ''C: '' @ e_country e, lit ''D: '' @ e_discipline e) \<in> set (row_pairs e)"
      by (simp add: row_pairs_def)
    with e have "n \<in> set (names_of rows)"
      unfolding names_of_bar_free[OF assms] n by blast
    then show "n \<in> set (filter (\<lambda>n. startsWith n (lit ''C: '')) (names_of rows))"
      by (simp add: n startsWith_append)
  qed
qed

lemma tier_D:
  assumes "\<forall>e \<in> set rows. row_bar_free e"
  shows "set (filter (\<lambda>n. startsWith n (lit ''D: '')) (names_of rows))
         = (\<lambda>e. lit ''D: '' @ e_discipline e) ` set rows"
proof (rule set_eqI)
  fix n
  show "n \<in> set (filter (\<lambda>n. startsWith n (lit ''D: '')) (names_of rows))
        \<longleftrightarrow> n \<in> (\<lambda>e. lit ''D: '' @ e_discipline e) ` set rows"
  proof
    assume "n \<in> set (filter (\<lambda>n. startsWith n (lit ''D: '')) (names_of rows))"
    then have n: "n \<in> set (names_of rows)" and sw: "startsWith n (lit ''D: '')" by simp_all
    from n obtain e s t where e: "e \<in> set rows" and st: "(s, t) \<in> set (row_pairs e)"
      and ns: "n = s \<or> n = t"
      unfolding names_of_bar_free[OF assms] by blast
    from st ns consider "n = lit ''C: '' @ e_country e" | "n = lit ''D: '' @ e_discipline e"
      | "n = lit ''G: '' @ e_gender e"
      by (auto simp: row_pairs_def)
    then have "n = lit ''D: '' @ e_discipline e"
    proof cases
      case 1
      then have "startsWith n (lit ''C: '')" by (simp add: startsWith_append)
      with sw show ?thesis using startsWith_C_not_D by blast
    next
      case 2 then show ?thesis .
    next
      case 3
      then have "startsWith n (lit ''G: '')" by (simp add: startsWith_append)
      with sw show ?thesis using startsWith_D_not_G by blast
    qed
    with e show "n \<in> (\<lambda>e. lit ''D: '' @ e_discipline e) ` set rows" by blast
  next
    assume "n \<in> (\<lambda>e. lit ''D: '' @ e_discipline e) ` set rows"
    then obtain e where e: "e \<in> set rows" and n: "n = lit ''D: '' @ e_discipline e" by blast
    have "(lit ''C: '' @ e_country e, lit ''D: '' @ e_discipline e) \<in> set (row_pairs e)"
      by (simp add: row_pairs_def)
    with e have "n \<in> set (names_of rows)"
      unfolding names_of_bar_free[OF assms] n by blast
    then show "n \<in> set (filter (\<lambda>n. startsWith n (lit ''D: '')) (names_of rows))"
      by (simp add: n startsWith_append)
  qed
qed

lemma tier_G:
  assumes "\<forall>e \<in> set rows. row_bar_free e"
  shows "set (filter (\<lambda>n. startsWith n (lit ''G: '')) (names_of rows))
         = (\<lambda>e. lit ''G: '' @ e_gender e) ` set rows"
proof (rule set_eqI)
  fix n
  show "n \<in> set (filter (\<lambda>n. startsWith n (lit ''G: '')) (names_of rows))
        \<longleftrightarrow> n \<in> (\<lambda>e. lit ''G: '' @ e_gender e) ` set rows"
  proof
    assume "n \<in> set (filter (\<lambda>n. startsWith n (lit ''G: '')) (names_of rows))"
    then have n: "n \<in> set (names_of rows)" and sw: "startsWith n (lit ''G: '')" by simp_all
    from n obtain e s t where e: "e \<in> set rows" and st: "(s, t) \<in> set (row_pairs e)"
      and ns: "n = s \<or> n = t"
      unfolding names_of_bar_free[OF assms] by blast
    from st ns consider "n = lit ''C: '' @ e_country e" | "n = lit ''D: '' @ e_discipline e"
      | "n = lit ''G: '' @ e_gender e"
      by (auto simp: row_pairs_def)
    then have "n = lit ''G: '' @ e_gender e"
    proof cases
      case 1
      then have "startsWith n (lit ''C: '')" by (simp add: startsWith_append)
      with sw show ?thesis using startsWith_C_not_G by blast
    next
      case 2
      then have "startsWith n (lit ''D: '')" by (simp add: startsWith_append)
      with sw show ?thesis using startsWith_D_not_G by blast
    next
      case 3 then show ?thesis .
    qed
    with e show "n \<in> (\<lambda>e. lit ''G: '' @ e_gender e) ` set rows" by blast
  next
    assume "n \<in> (\<lambda>e. lit ''G: '' @ e_gender e) ` set rows"
    then obtain e where e: "e \<in> set rows" and n: "n = lit ''G: '' @ e_gender e" by blast
    have "(lit ''D: '' @ e_discipline e, lit ''G: '' @ e_gender e) \<in> set (row_pairs e)"
      by (simp add: row_pairs_def)
    with e have "n \<in> set (names_of rows)"
      unfolding names_of_bar_free[OF assms] n by blast
    then show "n \<in> set (filter (\<lambda>n. startsWith n (lit ''G: '')) (names_of rows))"
      by (simp add: n startsWith_append)
  qed
qed

lemma ordered_of_bar_free:
  assumes "\<forall>e \<in> set rows. row_bar_free e"
  shows "ordered_of rows =
     sorted_list_of_set ((\<lambda>e. lit ''C: '' @ e_country e) ` set rows) @
     sorted_list_of_set ((\<lambda>e. lit ''D: '' @ e_discipline e) ` set rows) @
     sorted_list_of_set ((\<lambda>e. lit ''G: '' @ e_gender e) ` set rows)"
  unfolding ordered_of_def
  by (simp only: sort_distinct[OF distinct_filter[OF distinct_names_of]]
        tier_C[OF assms] tier_D[OF assms] tier_G[OF assms])

text \<open>The links, once the order of the names is fixed.\<close>

lemma endpoint_index:
  assumes "n \<in> set (ordered_of rows)"
  obtains i where "i < length (ordered_of rows)" "ordered_of rows ! i = n"
    "idx_get (new_Map (zip (ordered_of rows) [0 ..< length (ordered_of rows)])) (Some n) = Some i"
proof -
  from assms obtain i where i: "i < length (ordered_of rows)" "ordered_of rows ! i = n"
    by (auto simp: in_set_conv_nth)
  then have "idx_get (new_Map (zip (ordered_of rows) [0 ..< length (ordered_of rows)])) (Some n) = Some i"
    by (simp add: idx_get_def idx_get_iff[OF distinct_ordered_of])
  with i show ?thesis using that by blast
qed

lemma idx_get_Some_iff:
  "idx_get (new_Map (zip (ordered_of rows) [0 ..< length (ordered_of rows)])) (Some n) = Some i
   \<longleftrightarrow> i < length (ordered_of rows) \<and> ordered_of rows ! i = n"
  by (simp add: idx_get_def idx_get_iff[OF distinct_ordered_of])

lemma graph_final_of:
  "graph data tc td sel =
     Inr (index_links (ordered_of (final_of data tc td sel))
            (linksNamed (linksMap (final_of data tc td sel))))"
  unfolding final_of_def by (rule graph_Inr)

lemma links_char:
  "links (index_links (ordered_of rows) (linksNamed (linksMap rows)))
   = map (link_of rows) (new_Set (concat (map row_keys rows)))"
  by (simp add: links_index_links linksNamed_char link_of_def o_def)

lemma set_keys: "set (new_Set (concat (map row_keys rows))) = fst ` set (linksMap rows)"
  by (simp add: keys_linksMap set_new_Set)

lemma count_row_keys:
  assumes e: "row_bar_free e" and s: "124 \<notin> set s" and t: "124 \<notin> set t"
  shows "length (filter (\<lambda>k. k = link_key s t) (row_keys e))
         = (if (s, t) \<in> set (row_pairs e) then 1 else 0)"
proof -
  let ?c = "lit ''C: '' @ e_country e" and ?d = "lit ''D: '' @ e_discipline e"
  and ?g = "lit ''G: '' @ e_gender e"
  from e have nb: "124 \<notin> set ?c" "124 \<notin> set ?d" "124 \<notin> set ?g"
    by (simp_all add: row_bar_free_def lit_C lit_D lit_G)
  have a: "link_key ?c ?d = link_key s t \<longleftrightarrow> s = ?c \<and> t = ?d"
    using link_key_inj[OF nb(1) nb(2) s t] by auto
  have b: "link_key ?d ?g = link_key s t \<longleftrightarrow> s = ?d \<and> t = ?g"
    using link_key_inj[OF nb(2) nb(3) s t] by auto
  have ne: "?c \<noteq> ?d" by (simp add: lit_C lit_D)
  have "length (filter (\<lambda>k. k = link_key s t) (row_keys e))
        = (if link_key ?c ?d = link_key s t then 1 else 0)
          + (if link_key ?d ?g = link_key s t then 1 else 0)"
    by (simp add: row_keys_def)
  then have L: "length (filter (\<lambda>k. k = link_key s t) (row_keys e))
        = (if s = ?c \<and> t = ?d then 1 else 0) + (if s = ?d \<and> t = ?g then 1 else 0)"
    unfolding a b .
  have R: "(s, t) \<in> set (row_pairs e) \<longleftrightarrow> (s = ?c \<and> t = ?d) \<or> (s = ?d \<and> t = ?g)"
    unfolding row_pairs_def by auto
  show ?thesis
  proof (cases "s = ?c \<and> t = ?d")
    case True
    with ne have "\<not> (s = ?d \<and> t = ?g)" by auto
    with True show ?thesis unfolding L R by simp
  next
    case False
    with ne show ?thesis unfolding L R by auto
  qed
qed

lemma count_list_filter: "count_list xs a = length (filter (\<lambda>k. k = a) xs)"
  by (induction xs) auto

lemma count_keys:
  assumes rows: "\<forall>e \<in> set rows. row_bar_free e" and s: "124 \<notin> set s" and t: "124 \<notin> set t"
  shows "count_list (concat (map row_keys rows)) (link_key s t)
         = length (filter (\<lambda>e. (s, t) \<in> set (row_pairs e)) rows)"
proof -
  have "count_list (concat (map row_keys rows)) (link_key s t)
        = length (filter (\<lambda>k. k = link_key s t) (concat (map row_keys rows)))"
    by (rule count_list_filter)
  also have "\<dots> = length (filter (\<lambda>e. (s, t) \<in> set (row_pairs e)) rows)"
    using rows by (intro length_filter_concat count_row_keys[OF _ s t]) blast
  finally show ?thesis .
qed

text \<open>Every link of rows without bars joins the positions of the two labels of a pair of
  a row, and weighs the number of the rows that have the pair.\<close>

lemma link_of_key:
  assumes rows: "\<forall>e \<in> set rows. row_bar_free e"
      and k: "k \<in> set (new_Set (concat (map row_keys rows)))"
  obtains e s t i j where "e \<in> set rows" "(s, t) \<in> set (row_pairs e)" "k = link_key s t"
    "i < length (ordered_of rows)" "j < length (ordered_of rows)"
    "ordered_of rows ! i = s" "ordered_of rows ! j = t"
    "link_of rows k = \<lparr>source = Some i, target = Some j,
        value = length (filter (\<lambda>e. (s, t) \<in> set (row_pairs e)) rows)\<rparr>"
proof -
  from k have "k \<in> fst ` set (linksMap rows)" by (simp only: set_keys)
  with rows obtain e s t where e: "e \<in> set rows" and st: "(s, t) \<in> set (row_pairs e)"
    and ks: "k = link_key s t" and nb: "124 \<notin> set s" "124 \<notin> set t"
    and sp: "split k (lit ''|||'') = [s, t]"
    by (rule key_of_rows)
  from e st have "s \<in> set (names_of rows)" "t \<in> set (names_of rows)"
    unfolding names_of_bar_free[OF rows] by blast+
  then have "s \<in> set (ordered_of rows)" "t \<in> set (ordered_of rows)"
    by (simp_all only: set_ordered_of_bar_free[OF rows])
  then obtain i j where i: "i < length (ordered_of rows)" "ordered_of rows ! i = s"
      "idx_get (new_Map (zip (ordered_of rows) [0 ..< length (ordered_of rows)])) (Some s) = Some i"
    and j: "j < length (ordered_of rows)" "ordered_of rows ! j = t"
      "idx_get (new_Map (zip (ordered_of rows) [0 ..< length (ordered_of rows)])) (Some t) = Some j"
    by (metis endpoint_index)
  have "link_of rows k = \<lparr>source = Some i, target = Some j,
        value = length (filter (\<lambda>e. (s, t) \<in> set (row_pairs e)) rows)\<rparr>"
    unfolding link_of_def sp using i(3) j(3) count_keys[OF rows nb]
    by (simp add: at_def ks)
  with e st ks i(1,2) j(1,2) show ?thesis using that by blast
qed

section \<open>The graph of an input without bars\<close>

lemma length_filter_two:
  "length (filter P [a, b]) = (if P a then 1 else 0) + (if P b then 1 else 0)"
  by simp

lemma row_keys_second_pieces:
  assumes e: "row_bar_free e" and m: "startsWith m (lit ''D: '')"
  shows "length (filter (\<lambda>k. at (split k (lit ''|||'')) 1 = Some m) (row_keys e))
         = (if lit ''D: '' @ e_discipline e = m then 1 else 0)"
proof -
  let ?c = "lit ''C: '' @ e_country e" and ?d = "lit ''D: '' @ e_discipline e"
  and ?g = "lit ''G: '' @ e_gender e"
  from e have nb: "124 \<notin> set ?c" "124 \<notin> set ?d" "124 \<notin> set ?g"
    by (simp_all add: row_bar_free_def lit_C lit_D lit_G)
  have "startsWith ?g (lit ''G: '')" by (rule startsWith_append)
  with m have ne: "?g \<noteq> m" using startsWith_D_not_G by blast
  have p1: "at (split (link_key ?c ?d) (lit ''|||'')) 1 = Some ?d"
    by (simp add: split_pair[OF nb(1) nb(2)] at_def)
  have p2: "at (split (link_key ?d ?g) (lit ''|||'')) 1 = Some ?g"
    by (simp add: split_pair[OF nb(2) nb(3)] at_def)
  show ?thesis
    unfolding row_keys_def length_filter_two p1 p2 using ne by simp
qed

lemma row_keys_first_pieces:
  assumes e: "row_bar_free e" and m: "startsWith m (lit ''D: '')"
  shows "length (filter (\<lambda>k. at (split k (lit ''|||'')) 0 = Some m) (row_keys e))
         = (if lit ''D: '' @ e_discipline e = m then 1 else 0)"
proof -
  let ?c = "lit ''C: '' @ e_country e" and ?d = "lit ''D: '' @ e_discipline e"
  and ?g = "lit ''G: '' @ e_gender e"
  from e have nb: "124 \<notin> set ?c" "124 \<notin> set ?d" "124 \<notin> set ?g"
    by (simp_all add: row_bar_free_def lit_C lit_D lit_G)
  have "startsWith ?c (lit ''C: '')" by (rule startsWith_append)
  with m have ne: "?c \<noteq> m" using startsWith_C_not_D by blast
  have p1: "at (split (link_key ?c ?d) (lit ''|||'')) 0 = Some ?c"
    by (simp add: split_pair[OF nb(1) nb(2)] at_def)
  have p2: "at (split (link_key ?d ?g) (lit ''|||'')) 0 = Some ?d"
    by (simp add: split_pair[OF nb(2) nb(3)] at_def)
  show ?thesis
    unfolding row_keys_def length_filter_two p1 p2 using ne by simp
qed

lemma link_of_target_iff:
  assumes rows: "\<forall>e \<in> set rows. row_bar_free e"
      and k: "k \<in> set (new_Set (concat (map row_keys rows)))"
      and j: "j < length (ordered_of rows)"
  shows "target (link_of rows k) = Some j
         \<longleftrightarrow> at (split k (lit ''|||'')) 1 = Some (ordered_of rows ! j)"
proof -
  from k have "k \<in> fst ` set (linksMap rows)" by (simp only: set_keys)
  with rows obtain e s t where sp: "split k (lit ''|||'') = [s, t]" by (rule key_of_rows)
  show ?thesis
    unfolding link_of_def using j by (auto simp: sp at_def idx_get_Some_iff)
qed

lemma link_of_source_iff:
  assumes rows: "\<forall>e \<in> set rows. row_bar_free e"
      and k: "k \<in> set (new_Set (concat (map row_keys rows)))"
      and j: "j < length (ordered_of rows)"
  shows "source (link_of rows k) = Some j
         \<longleftrightarrow> at (split k (lit ''|||'')) 0 = Some (ordered_of rows ! j)"
proof -
  from k have "k \<in> fst ` set (linksMap rows)" by (simp only: set_keys)
  with rows obtain e s t where sp: "split k (lit ''|||'') = [s, t]" by (rule key_of_rows)
  show ?thesis
    unfolding link_of_def using j by (auto simp: sp at_def idx_get_Some_iff)
qed

lemma value_link_of: "value (link_of rows k) = count_list (concat (map row_keys rows)) k"
  by (simp add: link_of_def)

lemma weight_into:
  assumes rows: "\<forall>e \<in> set rows. row_bar_free e"
      and j: "j < length (ordered_of rows)"
      and m: "startsWith (ordered_of rows ! j) (lit ''D: '')"
  shows "sum_list (map value (filter (\<lambda>l. target l = Some j)
            (links (index_links (ordered_of rows) (linksNamed (linksMap rows))))))
         = length (filter (\<lambda>e. lit ''D: '' @ e_discipline e = ordered_of rows ! j) rows)"
proof -
  let ?keys = "concat (map row_keys rows)"
  let ?m = "ordered_of rows ! j"
  have "filter (\<lambda>l. target l = Some j) (map (link_of rows) (new_Set ?keys))
        = map (link_of rows) (filter (\<lambda>k. target (link_of rows k) = Some j) (new_Set ?keys))"
    by (simp add: filter_map o_def)
  also have "filter (\<lambda>k. target (link_of rows k) = Some j) (new_Set ?keys)
        = filter (\<lambda>k. at (split k (lit ''|||'')) 1 = Some ?m) (new_Set ?keys)"
    by (rule filter_cong[OF refl]) (rule link_of_target_iff[OF rows _ j])
  finally have "sum_list (map value (filter (\<lambda>l. target l = Some j)
            (links (index_links (ordered_of rows) (linksNamed (linksMap rows))))))
        = sum_list (map (count_list ?keys)
            (filter (\<lambda>k. at (split k (lit ''|||'')) 1 = Some ?m) (new_Set ?keys)))"
    by (simp add: links_char o_def value_link_of)
  also have "\<dots> = length (filter (\<lambda>k. at (split k (lit ''|||'')) 1 = Some ?m) ?keys)"
    by (rule sum_counts_new_Set)
  also have "\<dots> = length (filter (\<lambda>e. lit ''D: '' @ e_discipline e = ?m) rows)"
    using rows m by (intro length_filter_concat row_keys_second_pieces) blast+
  finally show ?thesis .
qed

lemma weight_out_of:
  assumes rows: "\<forall>e \<in> set rows. row_bar_free e"
      and j: "j < length (ordered_of rows)"
      and m: "startsWith (ordered_of rows ! j) (lit ''D: '')"
  shows "sum_list (map value (filter (\<lambda>l. source l = Some j)
            (links (index_links (ordered_of rows) (linksNamed (linksMap rows))))))
         = length (filter (\<lambda>e. lit ''D: '' @ e_discipline e = ordered_of rows ! j) rows)"
proof -
  let ?keys = "concat (map row_keys rows)"
  let ?m = "ordered_of rows ! j"
  have "filter (\<lambda>l. source l = Some j) (map (link_of rows) (new_Set ?keys))
        = map (link_of rows) (filter (\<lambda>k. source (link_of rows k) = Some j) (new_Set ?keys))"
    by (simp add: filter_map o_def)
  also have "filter (\<lambda>k. source (link_of rows k) = Some j) (new_Set ?keys)
        = filter (\<lambda>k. at (split k (lit ''|||'')) 0 = Some ?m) (new_Set ?keys)"
    by (rule filter_cong[OF refl]) (rule link_of_source_iff[OF rows _ j])
  finally have "sum_list (map value (filter (\<lambda>l. source l = Some j)
            (links (index_links (ordered_of rows) (linksNamed (linksMap rows))))))
        = sum_list (map (count_list ?keys)
            (filter (\<lambda>k. at (split k (lit ''|||'')) 0 = Some ?m) (new_Set ?keys)))"
    by (simp add: links_char o_def value_link_of)
  also have "\<dots> = length (filter (\<lambda>k. at (split k (lit ''|||'')) 0 = Some ?m) ?keys)"
    by (rule sum_counts_new_Set)
  also have "\<dots> = length (filter (\<lambda>e. lit ''D: '' @ e_discipline e = ?m) rows)"
    using rows m by (intro length_filter_concat row_keys_first_pieces) blast+
  finally show ?thesis .
qed

text \<open>
  What C9 says holds of every input without a bar: at every category node the weight
  that comes in is the weight that goes out, and it is the number of the final rows of
  that category.
\<close>

theorem flow_conserved_without_bars:
  assumes "\<forall>r \<in> set data. bar_free r"
  shows "\<exists>g. graph data tc td sel = Inr g \<and>
           (\<forall>j < length (nodes g). startsWith (name (nodes g ! j)) (lit ''D: '') \<longrightarrow>
              sum_list (map value (filter (\<lambda>l. target l = Some j) (links g)))
                = sum_list (map value (filter (\<lambda>l. source l = Some j) (links g))) \<and>
              sum_list (map value (filter (\<lambda>l. target l = Some j) (links g)))
                = length (filter (\<lambda>e. lit ''D: '' @ e_discipline e = name (nodes g ! j))
                            (final_of data tc td sel)))"
proof -
  let ?rows = "final_of data tc td sel"
  let ?g = "index_links (ordered_of ?rows) (linksNamed (linksMap ?rows))"
  have rows: "\<forall>e \<in> set ?rows. row_bar_free e"
    unfolding final_of_def using final_rows_bar_free[OF assms] by blast
  have n: "map name (nodes ?g) = ordered_of ?rows"
    by (simp add: nodes_index_links o_def)
  then have len: "length (nodes ?g) = length (ordered_of ?rows)"
    by (metis length_map)
  have nth: "name (nodes ?g ! j) = ordered_of ?rows ! j" if "j < length (nodes ?g)" for j
    using that n by (metis nth_map)
  have "sum_list (map value (filter (\<lambda>l. target l = Some j) (links ?g)))
          = sum_list (map value (filter (\<lambda>l. source l = Some j) (links ?g))) \<and>
        sum_list (map value (filter (\<lambda>l. target l = Some j) (links ?g)))
          = length (filter (\<lambda>e. lit ''D: '' @ e_discipline e = name (nodes ?g ! j)) ?rows)"
    if j: "j < length (nodes ?g)" and m: "startsWith (name (nodes ?g ! j)) (lit ''D: '')" for j
  proof -
    from j have j': "j < length (ordered_of ?rows)" by (simp only: len)
    from m have m': "startsWith (ordered_of ?rows ! j) (lit ''D: '')" by (simp only: nth[OF j])
    show ?thesis
      by (simp only: weight_into[OF rows j' m'] weight_out_of[OF rows j' m'] nth[OF j])
  qed
  then show ?thesis using graph_final_of[of data tc td sel] by blast
qed

lemma nth_nodes:
  "i < length (ordered_of rows) \<Longrightarrow>
   name (nodes (index_links (ordered_of rows) ls) ! i) = ordered_of rows ! i"
  by (simp add: nodes_index_links)

lemma length_nodes: "length (nodes (index_links ordered ls)) = length ordered"
  by (simp add: nodes_index_links)

lemma names_of_Some:
  assumes "n \<in> set (names_of rows)"
  shows "Some n \<in> set (nodeNames (linksNamed (linksMap rows)))"
proof -
  from assms obtain x where x: "x \<in> set (nodeNames (linksNamed (linksMap rows)))" and n: "n = the x"
    by (auto simp: names_of_def)
  from x nodeNames_defined[of rows] have "x \<noteq> None" by metis
  with n x show ?thesis by auto
qed

text \<open>
  Of C1, what holds of every input: the graph is computed without error, no two nodes
  have the same name, and every node is an end of a link.
\<close>

theorem nodes_distinct_and_referenced:
  "\<exists>g. graph data tc td sel = Inr g \<and>
        distinct (map name (nodes g)) \<and>
        (\<forall>i < length (nodes g). \<exists>l \<in> set (links g). source l = Some i \<or> target l = Some i)"
proof -
  let ?rows = "final_of data tc td sel"
  let ?ls = "linksNamed (linksMap ?rows)"
  let ?ord = "ordered_of ?rows"
  let ?g = "index_links ?ord ?ls"
  have d: "distinct (map name (nodes ?g))"
    by (simp add: nodes_index_links o_def distinct_ordered_of)
  have "\<exists>l \<in> set (links ?g). source l = Some i \<or> target l = Some i"
    if i: "i < length (nodes ?g)" for i
  proof -
    from i have i': "i < length ?ord" by (simp only: length_nodes)
    then have "?ord ! i \<in> set ?ord" by simp
    then have "?ord ! i \<in> set (names_of ?rows)" by (simp add: set_ordered_of)
    then have "Some (?ord ! i) \<in> set (nodeNames ?ls)" by (rule names_of_Some)
    then obtain nl where nl: "nl \<in> set ?ls"
      and "l_source nl = Some (?ord ! i) \<or> l_target nl = Some (?ord ! i)"
      by (auto simp: nodeNames_def set_new_Set)
    then have "idx_get (new_Map (zip ?ord [0 ..< length ?ord])) (l_source nl) = Some i \<or>
               idx_get (new_Map (zip ?ord [0 ..< length ?ord])) (l_target nl) = Some i"
      using i' by (auto simp: idx_get_Some_iff)
    with nl show ?thesis unfolding links_index_links by force
  qed
  with d show ?thesis using graph_final_of[of data tc td sel] by blast
qed

text \<open>
  What C1 says holds of every input without a bar: the nodes are the country labels of
  the final rows in order, then the category labels in order, then the subgroup labels
  in order; both ends of every link are positions of nodes, and the labels there are a
  pair of a final row; and every pair of a final row is a link.
\<close>

theorem graph_well_formed_without_bars:
  assumes "\<forall>r \<in> set data. bar_free r"
  shows "\<exists>g. graph data tc td sel = Inr g \<and>
     map name (nodes g) =
       sorted_list_of_set ((\<lambda>e. lit ''C: '' @ e_country e) ` set (final_of data tc td sel)) @
       sorted_list_of_set ((\<lambda>e. lit ''D: '' @ e_discipline e) ` set (final_of data tc td sel)) @
       sorted_list_of_set ((\<lambda>e. lit ''G: '' @ e_gender e) ` set (final_of data tc td sel)) \<and>
     (\<forall>l \<in> set (links g). \<exists>i j. source l = Some i \<and> target l = Some j \<and>
         i < length (nodes g) \<and> j < length (nodes g) \<and>
         (\<exists>e \<in> set (final_of data tc td sel).
            (name (nodes g ! i), name (nodes g ! j)) \<in> set (row_pairs e))) \<and>
     (\<forall>e \<in> set (final_of data tc td sel). \<forall>p \<in> set (row_pairs e).
         \<exists>l \<in> set (links g). \<exists>i j. source l = Some i \<and> target l = Some j \<and>
           i < length (nodes g) \<and> j < length (nodes g) \<and>
           name (nodes g ! i) = fst p \<and> name (nodes g ! j) = snd p)"
proof -
  let ?rows = "final_of data tc td sel"
  let ?ls = "linksNamed (linksMap ?rows)"
  let ?ord = "ordered_of ?rows"
  let ?g = "index_links ?ord ?ls"
  let ?ks = "new_Set (concat (map row_keys ?rows))"
  have rows: "\<forall>e \<in> set ?rows. row_bar_free e"
    unfolding final_of_def using final_rows_bar_free[OF assms] by blast
  have n: "map name (nodes ?g) =
       sorted_list_of_set ((\<lambda>e. lit ''C: '' @ e_country e) ` set ?rows) @
       sorted_list_of_set ((\<lambda>e. lit ''D: '' @ e_discipline e) ` set ?rows) @
       sorted_list_of_set ((\<lambda>e. lit ''G: '' @ e_gender e) ` set ?rows)"
    by (simp add: nodes_index_links o_def ordered_of_bar_free[OF rows])
  have l1: "\<exists>i j. source l = Some i \<and> target l = Some j \<and>
         i < length (nodes ?g) \<and> j < length (nodes ?g) \<and>
         (\<exists>e \<in> set ?rows. (name (nodes ?g ! i), name (nodes ?g ! j)) \<in> set (row_pairs e))"
    if "l \<in> set (links ?g)" for l
  proof -
    from that obtain k where k: "k \<in> set ?ks" and l: "l = link_of ?rows k"
      unfolding links_char by auto
    from rows k obtain e s t i j where e: "e \<in> set ?rows" "(s, t) \<in> set (row_pairs e)"
      and ij: "i < length ?ord" "j < length ?ord" "?ord ! i = s" "?ord ! j = t"
      and lk: "link_of ?rows k = \<lparr>source = Some i, target = Some j,
        value = length (filter (\<lambda>e. (s, t) \<in> set (row_pairs e)) ?rows)\<rparr>"
      by (rule link_of_key)
    have "source l = Some i \<and> target l = Some j" by (simp add: l lk)
    moreover have "(name (nodes ?g ! i), name (nodes ?g ! j)) \<in> set (row_pairs e)"
      using e(2) ij by (simp add: nth_nodes)
    ultimately show ?thesis using ij(1,2) e(1) unfolding length_nodes by blast
  qed
  have l2: "\<exists>l \<in> set (links ?g). \<exists>i j. source l = Some i \<and> target l = Some j \<and>
           i < length (nodes ?g) \<and> j < length (nodes ?g) \<and>
           name (nodes ?g ! i) = fst p \<and> name (nodes ?g ! j) = snd p"
    if e: "e \<in> set ?rows" and p: "p \<in> set (row_pairs e)" for e p
  proof -
    obtain s t where st: "p = (s, t)" by (cases p)
    from e p have "link_key s t \<in> fst ` set (linksMap ?rows)"
      unfolding st by (rule pair_key_in_linksMap)
    then have k: "link_key s t \<in> set ?ks" by (simp only: set_keys)
    from rows k obtain e' s' t' i j where e': "e' \<in> set ?rows" "(s', t') \<in> set (row_pairs e')"
      and ks: "link_key s t = link_key s' t'"
      and ij: "i < length ?ord" "j < length ?ord" "?ord ! i = s'" "?ord ! j = t'"
      and lk: "link_of ?rows (link_key s t) = \<lparr>source = Some i, target = Some j,
        value = length (filter (\<lambda>e. (s', t') \<in> set (row_pairs e)) ?rows)\<rparr>"
      by (rule link_of_key)
    from rows e p have "124 \<notin> set s \<and> 124 \<notin> set t"
      unfolding st using row_pairs_bar_free by blast
    moreover from rows e' have "124 \<notin> set s' \<and> 124 \<notin> set t'"
      using row_pairs_bar_free by blast
    ultimately have eq: "s = s' \<and> t = t'" using ks by (intro link_key_inj) auto
    have "link_of ?rows (link_key s t) \<in> set (links ?g)"
      unfolding links_char using k by simp
    moreover have "source (link_of ?rows (link_key s t)) = Some i \<and>
                   target (link_of ?rows (link_key s t)) = Some j" by (simp add: lk)
    moreover have "name (nodes ?g ! i) = fst p \<and> name (nodes ?g ! j) = snd p"
      using ij eq by (simp add: nth_nodes st)
    ultimately show ?thesis using ij(1,2) unfolding length_nodes by blast
  qed
  from n l1 l2 show ?thesis using graph_final_of[of data tc td sel] by blast
qed

text \<open>
  What the first half of C2 says holds of every input without a bar: no two links have
  the same ends, and the weight of a link is the number of the final rows that have its
  pair of labels.
\<close>

theorem links_unique_and_weighted_without_bars:
  assumes "\<forall>r \<in> set data. bar_free r"
  shows "\<exists>g. graph data tc td sel = Inr g \<and>
     distinct (map (\<lambda>l. (source l, target l)) (links g)) \<and>
     (\<forall>l \<in> set (links g). \<exists>i j. source l = Some i \<and> target l = Some j \<and> 0 < value l \<and>
        value l = length (filter (\<lambda>e. (name (nodes g ! i), name (nodes g ! j)) \<in> set (row_pairs e))
                           (final_of data tc td sel)))"
proof -
  let ?rows = "final_of data tc td sel"
  let ?ls = "linksNamed (linksMap ?rows)"
  let ?ord = "ordered_of ?rows"
  let ?g = "index_links ?ord ?ls"
  let ?ks = "new_Set (concat (map row_keys ?rows))"
  have rows: "\<forall>e \<in> set ?rows. row_bar_free e"
    unfolding final_of_def using final_rows_bar_free[OF assms] by blast
  have w: "\<exists>i j. source l = Some i \<and> target l = Some j \<and> 0 < value l \<and>
        value l = length (filter (\<lambda>e. (name (nodes ?g ! i), name (nodes ?g ! j)) \<in> set (row_pairs e)) ?rows)"
    if "l \<in> set (links ?g)" for l
  proof -
    from that obtain k where k: "k \<in> set ?ks" and l: "l = link_of ?rows k"
      unfolding links_char by auto
    from rows k obtain e s t i j where e: "e \<in> set ?rows" "(s, t) \<in> set (row_pairs e)"
      and ij: "i < length ?ord" "j < length ?ord" "?ord ! i = s" "?ord ! j = t"
      and lk: "link_of ?rows k = \<lparr>source = Some i, target = Some j,
        value = length (filter (\<lambda>e. (s, t) \<in> set (row_pairs e)) ?rows)\<rparr>"
      by (rule link_of_key)
    from e have "e \<in> set (filter (\<lambda>e. (s, t) \<in> set (row_pairs e)) ?rows)" by simp
    then have "0 < length (filter (\<lambda>e. (s, t) \<in> set (row_pairs e)) ?rows)"
      by (rule length_pos_if_in_set)
    then show ?thesis using ij by (auto simp: l lk nth_nodes)
  qed
  have "inj_on (\<lambda>k. (source (link_of ?rows k), target (link_of ?rows k))) (set ?ks)"
  proof (rule inj_onI)
    fix k k'
    assume k: "k \<in> set ?ks" and k': "k' \<in> set ?ks"
      and eq: "(source (link_of ?rows k), target (link_of ?rows k))
               = (source (link_of ?rows k'), target (link_of ?rows k'))"
    from rows k obtain s t i j where ks: "k = link_key s t"
      and ij: "?ord ! i = s" "?ord ! j = t"
      and lk: "link_of ?rows k = \<lparr>source = Some i, target = Some j,
        value = length (filter (\<lambda>e. (s, t) \<in> set (row_pairs e)) ?rows)\<rparr>"
      by (rule link_of_key)
    from rows k' obtain s' t' i' j' where ks': "k' = link_key s' t'"
      and ij': "?ord ! i' = s'" "?ord ! j' = t'"
      and lk': "link_of ?rows k' = \<lparr>source = Some i', target = Some j',
        value = length (filter (\<lambda>e. (s', t') \<in> set (row_pairs e)) ?rows)\<rparr>"
      by (rule link_of_key)
    from eq have "i = i'" "j = j'" by (simp_all add: lk lk')
    with ij ij' have "s = s'" "t = t'" by simp_all
    then show "k = k'" by (simp add: ks ks')
  qed
  then have "distinct (map (\<lambda>k. (source (link_of ?rows k), target (link_of ?rows k))) ?ks)"
    by (simp add: distinct_map distinct_new_Set)
  then have d: "distinct (map (\<lambda>l. (source l, target l)) (links ?g))"
    by (simp add: links_char o_def)
  from d w show ?thesis using graph_final_of[of data tc td sel] by blast
qed

section \<open>The link of a final row\<close>

text \<open>
  A key has the three bars of its separator and those of its two labels, so a key that
  is the key of two labels without bars has these two labels. The key of the country
  and the discipline of a final row is then counted once for every final row of that
  country and discipline when neither has a bar, and at least as often in any case.
\<close>

lemma count_bars_link_key:
  "count_list (link_key a b) 124 = count_list a 124 + 3 + count_list b 124"
  by (simp add: link_key_def lit_bars)

lemma link_key_eq_bar_free:
  assumes s: "124 \<notin> set s" and t: "124 \<notin> set t" and eq: "link_key a b = link_key s t"
  shows "a = s \<and> b = t"
proof -
  from s t have "count_list s 124 = 0" "count_list t 124 = 0"
    by (simp_all add: count_list_0_iff)
  with eq count_bars_link_key[of a b] count_bars_link_key[of s t]
  have "count_list a 124 = 0" "count_list b 124 = 0" by simp_all
  then have "124 \<notin> set a" "124 \<notin> set b" by (simp_all add: count_list_0_iff)
  then have "a = s \<and> b = t"
    using s t eq link_key_inj[of a b s t] by simp
  then show ?thesis .
qed

lemma count_row_keys_ge:
  "length (filter (\<lambda>e. e_country e = c \<and> e_discipline e = d) rows)
     \<le> count_list (concat (map row_keys rows)) (link_key (lit ''C: '' @ c) (lit ''D: '' @ d))"
  by (induction rows) (auto simp: row_keys_def)

lemma count_row_keys_eq:
  assumes c: "124 \<notin> set c" and d: "124 \<notin> set d"
  shows "count_list (concat (map row_keys rows)) (link_key (lit ''C: '' @ c) (lit ''D: '' @ d))
         = length (filter (\<lambda>e. e_country e = c \<and> e_discipline e = d) rows)"
proof -
  let ?k = "link_key (lit ''C: '' @ c) (lit ''D: '' @ d)"
  have cb: "124 \<notin> set (lit ''C: '' @ c)" and db: "124 \<notin> set (lit ''D: '' @ d)"
    using c d by (simp_all add: lit_C lit_D)
  have first: "link_key (lit ''C: '' @ c') (lit ''D: '' @ d') = ?k \<longleftrightarrow> c' = c \<and> d' = d" for c' d'
  proof
    assume "link_key (lit ''C: '' @ c') (lit ''D: '' @ d') = ?k"
    then have "lit ''C: '' @ c' = lit ''C: '' @ c \<and> lit ''D: '' @ d' = lit ''D: '' @ d"
      by (rule link_key_eq_bar_free[OF cb db])
    then show "c' = c \<and> d' = d" by simp
  next
    assume "c' = c \<and> d' = d"
    then show "link_key (lit ''C: '' @ c') (lit ''D: '' @ d') = ?k" by simp
  qed
  have second: "link_key (lit ''D: '' @ d') (lit ''G: '' @ g') \<noteq> ?k" for d' g'
  proof
    assume "link_key (lit ''D: '' @ d') (lit ''G: '' @ g') = ?k"
    then have "lit ''D: '' @ d' = lit ''C: '' @ c \<and> lit ''G: '' @ g' = lit ''D: '' @ d"
      by (rule link_key_eq_bar_free[OF cb db])
    then show False by (simp add: lit_C lit_D)
  qed
  have one: "count_list (row_keys e) ?k = (if e_country e = c \<and> e_discipline e = d then 1 else 0)" for e
    unfolding row_keys_def by (simp only: count_list.simps first second) simp
  show ?thesis by (induction rows) (simp_all add: one)
qed

text \<open>A final row whose country has no bar gives the node of its country, and the link
  of its first key starts there.\<close>

lemma link_of_final_row:
  assumes fin: "e \<in> set rows" and c: "124 \<notin> set (e_country e)"
  shows "\<exists>i < length (nodes (index_links (ordered_of rows) (linksNamed (linksMap rows)))).
           name (nodes (index_links (ordered_of rows) (linksNamed (linksMap rows))) ! i)
             = lit ''C: '' @ e_country e \<and>
           (\<exists>l \<in> set (links (index_links (ordered_of rows) (linksNamed (linksMap rows)))).
              source l = Some i \<and>
              1 \<le> value l \<and>
              length (filter (\<lambda>x. e_country x = e_country e \<and> e_discipline x = e_discipline e) rows)
                \<le> value l \<and>
              (124 \<notin> set (e_discipline e) \<longrightarrow>
                 value l = length (filter (\<lambda>x. e_country x = e_country e \<and>
                                              e_discipline x = e_discipline e) rows) \<and>
                 (\<exists>j < length (nodes (index_links (ordered_of rows) (linksNamed (linksMap rows)))).
                    name (nodes (index_links (ordered_of rows) (linksNamed (linksMap rows))) ! j)
                      = lit ''D: '' @ e_discipline e \<and>
                    target l = Some j)))"
proof -
  let ?c = "lit ''C: '' @ e_country e"
  let ?d = "lit ''D: '' @ e_discipline e"
  let ?k = "link_key ?c ?d"
  let ?ord = "ordered_of rows"
  let ?G = "index_links ?ord (linksNamed (linksMap rows))"
  let ?N = "length (filter (\<lambda>x. e_country x = e_country e \<and> e_discipline x = e_discipline e) rows)"
  let ?l = "link_of rows ?k"
  have cb: "124 \<notin> set ?c" using c by (simp add: lit_C)
  have k: "?k \<in> set (row_keys e)" by (simp add: row_keys_def)
  have src: "at (split ?k (lit ''|||'')) 0 = Some ?c"
    by (simp add: split_link_key[OF cb] at_Cons_0)
  from fin k src have "?c \<in> set (names_of rows)"
    unfolding in_names_of by blast
  then have "?c \<in> set ?ord"
    by (simp add: set_ordered_of startsWith_append)
  then obtain i where i: "i < length ?ord" "?ord ! i = ?c"
    by (auto simp: in_set_conv_nth)
  have nodes: "length (nodes ?G) = length ?ord" "\<And>n. n < length ?ord \<Longrightarrow> name (nodes ?G ! n) = ?ord ! n"
    by (simp_all add: nodes_index_links)
  from fin k have "?k \<in> set (concat (map row_keys rows))" by auto
  then have l: "?l \<in> set (links ?G)"
    by (simp add: links_char set_new_Set)
  have source: "source ?l = Some i"
    using i by (simp add: link_of_def src idx_get_Some_iff)
  have "e \<in> set (filter (\<lambda>x. e_country x = e_country e \<and> e_discipline x = e_discipline e) rows)"
    using fin by simp
  then have "0 < ?N" by (simp only: length_pos_if_in_set)
  then have N1: "1 \<le> ?N" by arith
  have ge: "?N \<le> value ?l"
    by (simp only: value_link_of count_row_keys_ge)
  have exact: "value ?l = ?N \<and>
      (\<exists>j < length (nodes ?G). name (nodes ?G ! j) = ?d \<and> target ?l = Some j)"
    if d: "124 \<notin> set (e_discipline e)"
  proof -
    have db: "124 \<notin> set ?d" using d by (simp add: lit_D)
    have tgt: "at (split ?k (lit ''|||'')) 1 = Some ?d"
      by (simp only: split_pair[OF cb db] at_one_Cons_Cons)
    from fin k tgt have "?d \<in> set (names_of rows)"
      unfolding in_names_of by blast
    then have "?d \<in> set ?ord"
      by (simp add: set_ordered_of startsWith_append)
    then obtain j where j: "j < length ?ord" "?ord ! j = ?d"
      by (auto simp: in_set_conv_nth)
    from tgt have tgt1: "at (split ?k (lit ''|||'')) (Suc 0) = Some ?d" by simp
    have "target ?l = Some j"
      using j by (simp add: link_of_def tgt1 idx_get_Some_iff)
    with j nodes have "\<exists>j < length (nodes ?G). name (nodes ?G ! j) = ?d \<and> target ?l = Some j"
      by auto
    moreover have "value ?l = ?N"
      by (simp only: value_link_of count_row_keys_eq[OF c d])
    ultimately show ?thesis by (intro conjI)
  qed
  from N1 ge have v1: "1 \<le> value ?l" by arith
  have body: "source ?l = Some i \<and> 1 \<le> value ?l \<and> ?N \<le> value ?l \<and>
        (124 \<notin> set (e_discipline e) \<longrightarrow> value ?l = ?N \<and>
           (\<exists>j < length (nodes ?G). name (nodes ?G ! j) = ?d \<and> target ?l = Some j))"
  proof (intro conjI impI)
    show "source ?l = Some i" by (rule source)
    show "1 \<le> value ?l" by (rule v1)
    show "?N \<le> value ?l" by (rule ge)
    show "value ?l = ?N" if "124 \<notin> set (e_discipline e)"
      using exact[OF that] by (rule conjunct1)
    show "\<exists>j < length (nodes ?G). name (nodes ?G ! j) = ?d \<and> target ?l = Some j"
      if "124 \<notin> set (e_discipline e)"
      using exact[OF that] by (rule conjunct2)
  qed
  have ex: "\<exists>l \<in> set (links ?G). source l = Some i \<and> 1 \<le> value l \<and> ?N \<le> value l \<and>
        (124 \<notin> set (e_discipline e) \<longrightarrow> value l = ?N \<and>
           (\<exists>j < length (nodes ?G). name (nodes ?G ! j) = ?d \<and> target l = Some j))"
    by (rule bexI[OF _ l]) (rule body)
  have nm: "name (nodes ?G ! i) = ?c" using nodes(2)[OF i(1)] i(2) by simp
  have il: "i < length (nodes ?G)" using i(1) by (simp only: nodes(1))
  from il nm ex show ?thesis by (intro exI[of _ i] conjI)
qed

text \<open>The row of a record with a blank country is a final row when it passes both
  selections, and then only.\<close>

lemma blank_row_kept_iff:
  assumes r: "r \<in> set data"
      and uc: "clean (country r) (lit ''Unknown Country'') = lit ''Unknown Country''"
      and d: "d \<in> set (splitDisciplines (clean (disciplines r) (lit ''Unknown Discipline'')))"
  shows "\<lparr>e_country = lit ''Unknown Country'', e_discipline = d,
           e_gender = clean (gender r) (lit ''Unknown'')\<rparr> \<in> set (final_of data tc td sel)
         \<longleftrightarrow> (if truthy sel then sel = Some (lit ''Unknown Country'')
              else has (topCountrySet (cleaned data) tc) (lit ''Unknown Country'')) \<and>
             has (topDiscSet (exploded (filteredCountries (base (cleaned data) sel) tc sel)) td) d"
proof -
  let ?UC = "lit ''Unknown Country''"
  let ?cr = "\<lparr>c_country = clean (country r) ?UC,
              c_disciplineRaw = clean (disciplines r) (lit ''Unknown Discipline''),
              c_gender = clean (gender r) (lit ''Unknown'')\<rparr>"
  let ?fc = "filteredCountries (base (cleaned data) sel) tc sel"
  let ?row = "\<lparr>e_country = ?UC, e_discipline = d, e_gender = clean (gender r) (lit ''Unknown'')\<rparr>"
  let ?cond = "if truthy sel then sel = Some ?UC else has (topCountrySet (cleaned data) tc) ?UC"
  have cr: "?cr \<in> set (cleaned data)" using r by (force simp: cleaned_def)
  have fin: "?row \<in> set (final_of data tc td sel) \<longleftrightarrow>
               ?row \<in> set (exploded ?fc) \<and> has (topDiscSet (exploded ?fc) td) d"
    by (simp add: final_of_def finalRows_def)
  have fc: "x \<in> set ?fc \<longleftrightarrow> x \<in> set (cleaned data) \<and>
              (if truthy sel then Some (c_country x) = sel
               else has (topCountrySet (cleaned data) tc) (c_country x))" for x
    by (simp add: filteredCountries_def base_def)
  have "?row \<in> set (exploded ?fc) \<longleftrightarrow> ?cond"
  proof
    assume "?row \<in> set (exploded ?fc)"
    then obtain x where x: "x \<in> set ?fc" "c_country x = ?UC"
      unfolding in_exploded_iff by auto
    from x(1) have "if truthy sel then Some (c_country x) = sel
               else has (topCountrySet (cleaned data) tc) (c_country x)"
      unfolding fc by (rule conjunct2)
    then show ?cond unfolding x(2) by (auto split: if_splits)
  next
    assume ?cond
    then have "?cr \<in> set ?fc"
      unfolding fc using cr by (auto simp: uc split: if_splits)
    then have "\<lparr>e_country = c_country ?cr, e_discipline = d, e_gender = c_gender ?cr\<rparr>
                 \<in> set (exploded ?fc)"
      using d by (intro in_exploded) simp_all
    then show "?row \<in> set (exploded ?fc)" by (simp add: uc)
  qed
  with fin show ?thesis by simp
qed

section \<open>The computation in the store\<close>








lemma linkMap_at_append:
  "a < length h \<Longrightarrow> linkMap_at (h @ ext) a = linkMap_at h a"
  by (simp add: linkMap_at_def nth_append)















lemma onClick_twice: "onClick (onClick sel c) c = (if sel = Some c then Some c else None)"
  by (simp add: onClick_def)

section \<open>Evaluation\<close>

text \<open>The definitions that evaluate the stages up to the final rows, and from there on.\<close>

lemmas eval_rows = cleaned_def clean_def trim_def is_ws_def base_def truthy_def filteredCountries_def
  topCountrySet_def countryCounts_def topSet_def rollup_def group_push_def new_Set_def set_add_def
  has_def sort_by_def descending_def slice0_def exploded_def splitDisciplines_def split_class_def
  is_sep_def discCounts_def topDiscSet_def finalRows_def lit_def

lemmas eval_graph = graph_of_rows_def linksMap_def addLink_def link_key_def linksNamed_def split_def
  at_def nodeNames_def order_nodes_def filter_prefix_def startsWith_def index_links_def new_Map_def
  idx_get_def lit_def new_Set_def set_add_def

lemmas eval_explode = splitDisciplines_def explode_spec_def parseDisciplinesField_def split_class_def
  is_sep_def trim_def is_ws_def strip_brackets_def lit_def

section \<open>Inputs with the separator of the keys inside a label\<close>

lemma rows_bars_in_country:
  "finalRows (exploded (filteredCountries (base (cleaned
     [\<lparr>country = Some (lit ''A|||B''), disciplines = Some (lit ''X''), gender = Some (lit ''M'')\<rparr>])
     None) 12 None)) 12
   = [\<lparr>e_country = lit ''A|||B'', e_discipline = lit ''X'', e_gender = lit ''M''\<rparr>]"
  by (simp add: eval_rows)

lemma graph_bars_in_country:
  "graph_of_rows [\<lparr>e_country = lit ''A|||B'', e_discipline = lit ''X'', e_gender = lit ''M''\<rparr>]
   = Inr \<lparr>nodes = [\<lparr>name = lit ''C: A''\<rparr>, \<lparr>name = lit ''D: X''\<rparr>, \<lparr>name = lit ''G: M''\<rparr>],
           links = [\<lparr>source = Some 0, target = None, value = 1\<rparr>,
                    \<lparr>source = Some 1, target = Some 2, value = 1\<rparr>]\<rparr>"
  by (simp add: eval_graph)

text \<open>
  C1, at an input where it fails. A country that contains the separator of the keys,
  here \<open>A|||B\<close>: the key of its link splits into more than two pieces, the link gets
  the source \<open>C: A\<close> and the target \<open>B\<close>, which is no node, and the index of its target
  is undefined. The claim asks for the node \<open>C: A|||B\<close> and a target that is a position
  in the nodes.
\<close>

theorem bars_in_country_break_index:
  "graph [\<lparr>country = Some (lit ''A|||B''), disciplines = Some (lit ''X''), gender = Some (lit ''M'')\<rparr>]
     12 12 None
   = Inr \<lparr>nodes = [\<lparr>name = lit ''C: A''\<rparr>, \<lparr>name = lit ''D: X''\<rparr>, \<lparr>name = lit ''G: M''\<rparr>],
           links = [\<lparr>source = Some 0, target = None, value = 1\<rparr>,
                    \<lparr>source = Some 1, target = Some 2, value = 1\<rparr>]\<rparr>"
  by (simp only: graph_unfold rows_bars_in_country graph_bars_in_country)

lemma rows_bars_in_gender:
  "finalRows (exploded (filteredCountries (base (cleaned
     [\<lparr>country = Some (lit ''A''), disciplines = Some (lit ''X''), gender = Some (lit ''M|||x'')\<rparr>,
      \<lparr>country = Some (lit ''A''), disciplines = Some (lit ''X''), gender = Some (lit ''M|||y'')\<rparr>])
     None) 12 None)) 12
   = [\<lparr>e_country = lit ''A'', e_discipline = lit ''X'', e_gender = lit ''M|||x''\<rparr>,
      \<lparr>e_country = lit ''A'', e_discipline = lit ''X'', e_gender = lit ''M|||y''\<rparr>]"
  by (simp add: eval_rows)

lemma graph_bars_in_gender:
  "graph_of_rows [\<lparr>e_country = lit ''A'', e_discipline = lit ''X'', e_gender = lit ''M|||x''\<rparr>,
      \<lparr>e_country = lit ''A'', e_discipline = lit ''X'', e_gender = lit ''M|||y''\<rparr>]
   = Inr \<lparr>nodes = [\<lparr>name = lit ''C: A''\<rparr>, \<lparr>name = lit ''D: X''\<rparr>, \<lparr>name = lit ''G: M''\<rparr>],
           links = [\<lparr>source = Some 0, target = Some 1, value = 2\<rparr>,
                    \<lparr>source = Some 1, target = Some 2, value = 1\<rparr>,
                    \<lparr>source = Some 1, target = Some 2, value = 1\<rparr>]\<rparr>"
  by (simp add: eval_graph)

text \<open>
  C2, at an input where it fails. Two genders that differ only behind the separator of
  the keys, \<open>M|||x\<close> and \<open>M|||y\<close>: their two keys split to the same source and target,
  and the links hold the pair of indices \<open>(1, 2)\<close> twice, each with weight 1. The claim
  asks for every pair at most once.
\<close>

theorem bars_in_gender_repeat_pair:
  "graph [\<lparr>country = Some (lit ''A''), disciplines = Some (lit ''X''), gender = Some (lit ''M|||x'')\<rparr>,
      \<lparr>country = Some (lit ''A''), disciplines = Some (lit ''X''), gender = Some (lit ''M|||y'')\<rparr>]
     12 12 None
   = Inr \<lparr>nodes = [\<lparr>name = lit ''C: A''\<rparr>, \<lparr>name = lit ''D: X''\<rparr>, \<lparr>name = lit ''G: M''\<rparr>],
           links = [\<lparr>source = Some 0, target = Some 1, value = 2\<rparr>,
                    \<lparr>source = Some 1, target = Some 2, value = 1\<rparr>,
                    \<lparr>source = Some 1, target = Some 2, value = 1\<rparr>]\<rparr>"
  by (simp only: graph_unfold rows_bars_in_gender graph_bars_in_gender)

lemma rows_bar_discipline:
  "finalRows (exploded (filteredCountries (base (cleaned
     [\<lparr>country = Some (lit ''A''), disciplines = Some (lit ''|''), gender = Some (lit ''M'')\<rparr>])
     None) 12 None)) 12
   = [\<lparr>e_country = lit ''A'', e_discipline = lit ''|'', e_gender = lit ''M''\<rparr>]"
  by (simp add: eval_rows)

lemma graph_bar_discipline:
  "graph_of_rows [\<lparr>e_country = lit ''A'', e_discipline = lit ''|'', e_gender = lit ''M''\<rparr>]
   = Inr \<lparr>nodes = [\<lparr>name = lit ''C: A''\<rparr>, \<lparr>name = lit ''D: ''\<rparr>, \<lparr>name = lit ''D: |''\<rparr>],
           links = [\<lparr>source = Some 0, target = Some 2, value = 1\<rparr>,
                    \<lparr>source = Some 1, target = None, value = 1\<rparr>]\<rparr>"
  by (simp add: eval_graph)

text \<open>
  C9, at an input where it fails. The discipline \<open>|\<close>, which the exploder returns as
  it is since it has no piece that is not empty: the key of the link to the gender is
  \<open>D: ||||G: M\<close> and splits into \<open>D: \<close> and \<open>|G: M\<close>. The node \<open>D: |\<close> at position 2
  has weight 1 coming in and none going out; the claim asks for the same weight on
  both sides of every category node.
\<close>

theorem bar_discipline_breaks_flow:
  "graph [\<lparr>country = Some (lit ''A''), disciplines = Some (lit ''|''), gender = Some (lit ''M'')\<rparr>]
     12 12 None
   = Inr \<lparr>nodes = [\<lparr>name = lit ''C: A''\<rparr>, \<lparr>name = lit ''D: ''\<rparr>, \<lparr>name = lit ''D: |''\<rparr>],
           links = [\<lparr>source = Some 0, target = Some 2, value = 1\<rparr>,
                    \<lparr>source = Some 1, target = None, value = 1\<rparr>]\<rparr>"
  by (simp only: graph_unfold rows_bar_discipline graph_bar_discipline)

section \<open>The claims\<close>

lemma rows_focus_ignores_topCountries:
  "finalRows (exploded (filteredCountries (base (cleaned
     [\<lparr>country = Some (lit ''USA''), disciplines = Some (lit ''Swimming''), gender = Some (lit ''Male'')\<rparr>])
     (Some (lit ''USA''))) 0 (Some (lit ''USA'')))) 12
   = [\<lparr>e_country = lit ''USA'', e_discipline = lit ''Swimming'', e_gender = lit ''Male''\<rparr>]"
  by (simp add: eval_rows)

lemma graph_one_row:
  "graph_of_rows [\<lparr>e_country = lit ''USA'', e_discipline = lit ''Swimming'', e_gender = lit ''Male''\<rparr>]
   = Inr \<lparr>nodes = [\<lparr>name = lit ''C: USA''\<rparr>, \<lparr>name = lit ''D: Swimming''\<rparr>, \<lparr>name = lit ''G: Male''\<rparr>],
           links = [\<lparr>source = Some 0, target = Some 1, value = 1\<rparr>,
                    \<lparr>source = Some 1, target = Some 2, value = 1\<rparr>]\<rparr>"
  by (simp add: eval_graph)

text \<open>
  C5 as stated fails under a focus: with \<open>topCountries = 0\<close> and the focus \<open>USA\<close>, one
  row of that country gives a graph of three nodes and two links.
\<close>

theorem topCountries_zero_focus_not_empty:
  "graph [\<lparr>country = Some (lit ''USA''), disciplines = Some (lit ''Swimming''), gender = Some (lit ''Male'')\<rparr>]
     0 12 (Some (lit ''USA''))
   = Inr \<lparr>nodes = [\<lparr>name = lit ''C: USA''\<rparr>, \<lparr>name = lit ''D: Swimming''\<rparr>, \<lparr>name = lit ''G: Male''\<rparr>],
           links = [\<lparr>source = Some 0, target = Some 1, value = 1\<rparr>,
                    \<lparr>source = Some 1, target = Some 2, value = 1\<rparr>]\<rparr>"
  by (simp only: graph_unfold rows_focus_ignores_topCountries graph_one_row)

text \<open>
  C5, as amended. With \<open>topCountries = 0\<close> and no focus (\<^verbatim>\<open>selectedCountry\<close> is
  \<^verbatim>\<open>null\<close> or the empty string, both false as a condition) the graph of Homework 3 has
  no nodes and no links, and so has the graph of Homework 2, which has no focus at all.
\<close>

theorem topCountries_zero_empty:
  "graph data 0 topDisciplines None = Inr \<lparr>nodes = [], links = []\<rparr> \<and>
   graph data 0 topDisciplines (Some []) = Inr \<lparr>nodes = [], links = []\<rparr> \<and>
   graph_hw2 data 0 topDisciplines = Inr \<lparr>nodes = [], links = []\<rparr>"
proof -
  have a: "graph data 0 topDisciplines sel = Inr \<lparr>nodes = [], links = []\<rparr>"
    if "\<not> truthy sel" for sel
  proof -
    have fc: "filteredCountries (base (cleaned data) sel) 0 sel = []"
      using that by (rule filteredCountries_zero)
    show ?thesis unfolding graph_def Let_def fc by (rule graph_of_no_rows)
  qed
  have b: "filter (\<lambda>d. has (topCountrySet (cleaned data) 0) (c_country d)) (cleaned data) = []"
    by (simp add: topCountrySet_def topSet_zero has_def)
  have c: "graph_hw2 data 0 topDisciplines = Inr \<lparr>nodes = [], links = []\<rparr>"
    unfolding graph_hw2_def Let_def order_nodes_hw2_eq b by (rule graph_of_no_rows)
  show ?thesis using a[of None] a[of "Some []"] c by (simp add: truthy_def)
qed

text \<open>
  C6. For every sequence of cleaned rows and every \<open>N \<ge> 1\<close>, the countries that the
  top-N selection retains with parameter \<open>N - 1\<close> are among those it retains with \<open>N\<close>;
  so are the rows that pass the country filter. The tie-break is the one of the model:
  counts in first-seen order of their keys, sorted by a stable sort.
\<close>

theorem topCountrySet_mono:
  assumes "1 \<le> N"
  shows "set (topCountrySet rows (N - 1)) \<subseteq> set (topCountrySet rows N) \<and>
         set (filteredCountries rows (N - 1) None) \<subseteq> set (filteredCountries rows N None)"
proof -
  let ?sorted = "sort_by (\<lambda>a b. descending (snd a) (snd b)) (countryCounts rows)"
  have "fst ` set (slice0 ?sorted (N - 1)) \<subseteq> fst ` set (slice0 ?sorted N)"
    using slice0_mono[OF assms, of ?sorted] by (rule image_mono)
  then have keys: "set (topCountrySet rows (N - 1)) \<subseteq> set (topCountrySet rows N)"
    by (simp add: topCountrySet_def topSet_def set_new_Set)
  then have "set (filteredCountries rows (N - 1) None) \<subseteq> set (filteredCountries rows N None)"
    by (auto simp: filteredCountries_def truthy_def has_def)
  with keys show ?thesis by simp
qed

theorem topCountrySet_mono_witness:
  "(1::int) \<le> 2 \<and>
   set (topCountrySet
          [\<lparr>c_country = lit ''USA'', c_disciplineRaw = lit ''Judo'', c_gender = lit ''Male''\<rparr>,
           \<lparr>c_country = lit ''FRA'', c_disciplineRaw = lit ''Judo'', c_gender = lit ''Male''\<rparr>] (2 - 1))
     \<subseteq> set (topCountrySet
          [\<lparr>c_country = lit ''USA'', c_disciplineRaw = lit ''Judo'', c_gender = lit ''Male''\<rparr>,
           \<lparr>c_country = lit ''FRA'', c_disciplineRaw = lit ''Judo'', c_gender = lit ''Male''\<rparr>] 2) \<and>
   set (filteredCountries
          [\<lparr>c_country = lit ''USA'', c_disciplineRaw = lit ''Judo'', c_gender = lit ''Male''\<rparr>,
           \<lparr>c_country = lit ''FRA'', c_disciplineRaw = lit ''Judo'', c_gender = lit ''Male''\<rparr>] (2 - 1) None)
     \<subseteq> set (filteredCountries
          [\<lparr>c_country = lit ''USA'', c_disciplineRaw = lit ''Judo'', c_gender = lit ''Male''\<rparr>,
           \<lparr>c_country = lit ''FRA'', c_disciplineRaw = lit ''Judo'', c_gender = lit ''Male''\<rparr>] 2 None)"
  using topCountrySet_mono[of 2
          "[\<lparr>c_country = lit ''USA'', c_disciplineRaw = lit ''Judo'', c_gender = lit ''Male''\<rparr>,
            \<lparr>c_country = lit ''FRA'', c_disciplineRaw = lit ''Judo'', c_gender = lit ''Male''\<rparr>]"]
  by simp





text \<open>
  C10. For every input and equal parameters, the graph of Homework 2 is the graph of
  Homework 3 without a focus: the same nodes in the same order, the same links.
\<close>

theorem graph_hw2_eq_graph_unfocused:
  "graph_hw2 data topCountries topDisciplines = graph data topCountries topDisciplines None"
  by (simp add: graph_hw2_def graph_def base_def filteredCountries_def truthy_def order_nodes_hw2_eq)

lemma rows_unknown_country_dropped:
  "finalRows (exploded (filteredCountries (base (cleaned
     [\<lparr>country = Some (lit ''USA''), disciplines = Some (lit ''Swimming''), gender = Some (lit ''Male'')\<rparr>,
      \<lparr>country = Some (lit ''USA''), disciplines = Some (lit ''Swimming''), gender = Some (lit ''Male'')\<rparr>,
      \<lparr>country = Some (lit '' ''), disciplines = Some (lit ''Swimming''), gender = Some (lit ''Male'')\<rparr>])
     None) 1 None)) 12
   = [\<lparr>e_country = lit ''USA'', e_discipline = lit ''Swimming'', e_gender = lit ''Male''\<rparr>,
      \<lparr>e_country = lit ''USA'', e_discipline = lit ''Swimming'', e_gender = lit ''Male''\<rparr>]"
  by (simp add: eval_rows)

lemma graph_two_rows:
  "graph_of_rows
     [\<lparr>e_country = lit ''USA'', e_discipline = lit ''Swimming'', e_gender = lit ''Male''\<rparr>,
      \<lparr>e_country = lit ''USA'', e_discipline = lit ''Swimming'', e_gender = lit ''Male''\<rparr>]
   = Inr \<lparr>nodes = [\<lparr>name = lit ''C: USA''\<rparr>, \<lparr>name = lit ''D: Swimming''\<rparr>, \<lparr>name = lit ''G: Male''\<rparr>],
           links = [\<lparr>source = Some 0, target = Some 1, value = 2\<rparr>,
                    \<lparr>source = Some 1, target = Some 2, value = 2\<rparr>]\<rparr>"
  by (simp add: eval_graph)

text \<open>
  C7 as stated fails: a record with a blank country is dropped when \<open>Unknown Country\<close>
  is not among the top countries. Two records of \<open>USA\<close> and one with a country of one
  space, with \<open>topCountries = 1\<close>: the graph has the country node \<open>C: USA\<close> only, and
  its links weigh 2.
\<close>

theorem blank_country_dropped_by_topCountries:
  "graph
     [\<lparr>country = Some (lit ''USA''), disciplines = Some (lit ''Swimming''), gender = Some (lit ''Male'')\<rparr>,
      \<lparr>country = Some (lit ''USA''), disciplines = Some (lit ''Swimming''), gender = Some (lit ''Male'')\<rparr>,
      \<lparr>country = Some (lit '' ''), disciplines = Some (lit ''Swimming''), gender = Some (lit ''Male'')\<rparr>]
     1 12 None
   = Inr \<lparr>nodes = [\<lparr>name = lit ''C: USA''\<rparr>, \<lparr>name = lit ''D: Swimming''\<rparr>, \<lparr>name = lit ''G: Male''\<rparr>],
           links = [\<lparr>source = Some 0, target = Some 1, value = 2\<rparr>,
                    \<lparr>source = Some 1, target = Some 2, value = 2\<rparr>]\<rparr>"
  by (simp only: graph_unfold rows_unknown_country_dropped graph_two_rows)

text \<open>
  C7, as amended. A record whose country is missing or blank is cleaned to the country
  \<open>Unknown Country\<close>, and the graph computation raises no error on any input. For
  every discipline label \<open>d\<close> of the record, its row is among the final rows exactly
  when \<open>Unknown Country\<close> passes the country stage (it is the focus, or there is no
  focus and it is among the top countries) and \<open>d\<close> is among the top disciplines;
  otherwise the row is dropped. When the row is kept, the graph has the node
  \<open>C: Unknown Country\<close>, and a link from it that weighs at least the number of final
  rows of \<open>Unknown Country\<close> and \<open>d\<close>, which is 1 or more; when \<open>d\<close> has no bar,
  the link weighs that number and ends at the node \<open>D: d\<close>.
\<close>

theorem blank_country_is_unknown:
  assumes r: "r \<in> set data"
      and blank: "trim (case country r of None \<Rightarrow> [] | Some x \<Rightarrow> x) = []"
  shows "clean (country r) (lit ''Unknown Country'') = lit ''Unknown Country'' \<and>
         (\<exists>g. graph data tc td sel = Inr g \<and>
            (\<forall>d \<in> set (splitDisciplines (clean (disciplines r) (lit ''Unknown Discipline''))).
               (\<lparr>e_country = lit ''Unknown Country'', e_discipline = d,
                  e_gender = clean (gender r) (lit ''Unknown'')\<rparr> \<in> set (final_of data tc td sel)
                \<longleftrightarrow> (if truthy sel then sel = Some (lit ''Unknown Country'')
                     else has (topCountrySet (cleaned data) tc) (lit ''Unknown Country'')) \<and>
                    has (topDiscSet (exploded (filteredCountries (base (cleaned data) sel) tc sel)) td) d) \<and>
               (\<lparr>e_country = lit ''Unknown Country'', e_discipline = d,
                  e_gender = clean (gender r) (lit ''Unknown'')\<rparr> \<in> set (final_of data tc td sel)
                \<longrightarrow> (\<exists>i < length (nodes g). name (nodes g ! i) = lit ''C: Unknown Country'' \<and>
                      (\<exists>l \<in> set (links g). source l = Some i \<and> 1 \<le> value l \<and>
                         length (filter (\<lambda>e. e_country e = lit ''Unknown Country'' \<and> e_discipline e = d)
                                   (final_of data tc td sel)) \<le> value l \<and>
                         (124 \<notin> set d \<longrightarrow>
                            value l = length (filter (\<lambda>e. e_country e = lit ''Unknown Country'' \<and>
                                                         e_discipline e = d)
                                                (final_of data tc td sel)) \<and>
                            (\<exists>j < length (nodes g). name (nodes g ! j) = lit ''D: '' @ d \<and>
                               target l = Some j)))))))"
proof -
  let ?UC = "lit ''Unknown Country''"
  let ?final = "final_of data tc td sel"
  let ?g = "index_links (ordered_of ?final) (linksNamed (linksMap ?final))"
  let ?row = "\<lambda>d. \<lparr>e_country = ?UC, e_discipline = d, e_gender = clean (gender r) (lit ''Unknown'')\<rparr>"
  have uc: "clean (country r) ?UC = ?UC"
    using blank by (simp add: clean_def)
  have g: "graph data tc td sel = Inr ?g" by (rule graph_final_of)
  have nb: "124 \<notin> set ?UC" by (simp add: lit_def)
  have cuc: "lit ''C: '' @ ?UC = lit ''C: Unknown Country''" by (simp add: lit_def)
  have link: "\<exists>i < length (nodes ?g). name (nodes ?g ! i) = lit ''C: Unknown Country'' \<and>
                (\<exists>l \<in> set (links ?g). source l = Some i \<and> 1 \<le> value l \<and>
                   length (filter (\<lambda>e. e_country e = ?UC \<and> e_discipline e = d) ?final) \<le> value l \<and>
                   (124 \<notin> set d \<longrightarrow>
                      value l = length (filter (\<lambda>e. e_country e = ?UC \<and> e_discipline e = d) ?final) \<and>
                      (\<exists>j < length (nodes ?g). name (nodes ?g ! j) = lit ''D: '' @ d \<and>
                         target l = Some j)))"
    if fin: "?row d \<in> set ?final" for d
  proof -
    have nb': "124 \<notin> set (e_country (?row d))" using nb by simp
    from link_of_final_row[OF fin nb'] show ?thesis
      by (simp only: ExplodedRow.select_convs cuc)
  qed
  have all: "\<forall>d \<in> set (splitDisciplines (clean (disciplines r) (lit ''Unknown Discipline''))).
               (?row d \<in> set ?final
                \<longleftrightarrow> (if truthy sel then sel = Some ?UC
                     else has (topCountrySet (cleaned data) tc) ?UC) \<and>
                    has (topDiscSet (exploded (filteredCountries (base (cleaned data) sel) tc sel)) td) d) \<and>
               (?row d \<in> set ?final
                \<longrightarrow> (\<exists>i < length (nodes ?g). name (nodes ?g ! i) = lit ''C: Unknown Country'' \<and>
                      (\<exists>l \<in> set (links ?g). source l = Some i \<and> 1 \<le> value l \<and>
                         length (filter (\<lambda>e. e_country e = ?UC \<and> e_discipline e = d) ?final) \<le> value l \<and>
                         (124 \<notin> set d \<longrightarrow>
                            value l = length (filter (\<lambda>e. e_country e = ?UC \<and> e_discipline e = d) ?final) \<and>
                            (\<exists>j < length (nodes ?g). name (nodes ?g ! j) = lit ''D: '' @ d \<and>
                               target l = Some j)))))"
  proof (intro ballI conjI impI)
    fix d assume d: "d \<in> set (splitDisciplines (clean (disciplines r) (lit ''Unknown Discipline'')))"
    show "?row d \<in> set ?final
                \<longleftrightarrow> (if truthy sel then sel = Some ?UC
                     else has (topCountrySet (cleaned data) tc) ?UC) \<and>
                    has (topDiscSet (exploded (filteredCountries (base (cleaned data) sel) tc sel)) td) d"
      using r uc d by (rule blank_row_kept_iff)
  next
    fix d assume "?row d \<in> set ?final"
    then show "\<exists>i < length (nodes ?g). name (nodes ?g ! i) = lit ''C: Unknown Country'' \<and>
                (\<exists>l \<in> set (links ?g). source l = Some i \<and> 1 \<le> value l \<and>
                   length (filter (\<lambda>e. e_country e = ?UC \<and> e_discipline e = d) ?final) \<le> value l \<and>
                   (124 \<notin> set d \<longrightarrow>
                      value l = length (filter (\<lambda>e. e_country e = ?UC \<and> e_discipline e = d) ?final) \<and>
                      (\<exists>j < length (nodes ?g). name (nodes ?g ! j) = lit ''D: '' @ d \<and>
                         target l = Some j)))"
      by (rule link)
  qed
  show ?thesis
  proof (intro conjI exI[of _ ?g])
    show "clean (country r) ?UC = ?UC" by (rule uc)
    show "graph data tc td sel = Inr ?g" by (rule g)
    show "\<forall>d \<in> set (splitDisciplines (clean (disciplines r) (lit ''Unknown Discipline''))).
               (?row d \<in> set ?final
                \<longleftrightarrow> (if truthy sel then sel = Some ?UC
                     else has (topCountrySet (cleaned data) tc) ?UC) \<and>
                    has (topDiscSet (exploded (filteredCountries (base (cleaned data) sel) tc sel)) td) d) \<and>
               (?row d \<in> set ?final
                \<longrightarrow> (\<exists>i < length (nodes ?g). name (nodes ?g ! i) = lit ''C: Unknown Country'' \<and>
                      (\<exists>l \<in> set (links ?g). source l = Some i \<and> 1 \<le> value l \<and>
                         length (filter (\<lambda>e. e_country e = ?UC \<and> e_discipline e = d) ?final) \<le> value l \<and>
                         (124 \<notin> set d \<longrightarrow>
                            value l = length (filter (\<lambda>e. e_country e = ?UC \<and> e_discipline e = d) ?final) \<and>
                            (\<exists>j < length (nodes ?g). name (nodes ?g ! j) = lit ''D: '' @ d \<and>
                               target l = Some j)))))"
      by (rule all)
  qed
qed

lemma unknown_country_in_top:
  "has (topCountrySet (cleaned
     [\<lparr>country = Some (lit ''USA''), disciplines = Some (lit ''Swimming''), gender = Some (lit ''Male'')\<rparr>,
      \<lparr>country = None, disciplines = Some (lit ''Judo''), gender = Some (lit ''Male'')\<rparr>]) 12)
     (lit ''Unknown Country'')"
  by (simp add: eval_rows)

lemma unknown_country_discipline:
  "splitDisciplines (clean (disciplines
      \<lparr>country = None, disciplines = Some (lit ''Judo''), gender = Some (lit ''Male'')\<rparr>)
      (lit ''Unknown Discipline'')) = [lit ''Judo'']"
  by (simp add: eval_rows)

lemma unknown_country_discipline_in_top:
  "has (topDiscSet (exploded (filteredCountries (base (cleaned
     [\<lparr>country = Some (lit ''USA''), disciplines = Some (lit ''Swimming''), gender = Some (lit ''Male'')\<rparr>,
      \<lparr>country = None, disciplines = Some (lit ''Judo''), gender = Some (lit ''Male'')\<rparr>]) None) 12 None)) 12)
     (lit ''Judo'')"
  by (simp add: eval_rows)

lemma final_unknown_country:
  "final_of
     [\<lparr>country = Some (lit ''USA''), disciplines = Some (lit ''Swimming''), gender = Some (lit ''Male'')\<rparr>,
      \<lparr>country = None, disciplines = Some (lit ''Judo''), gender = Some (lit ''Male'')\<rparr>] 12 12 None
   = [\<lparr>e_country = lit ''USA'', e_discipline = lit ''Swimming'', e_gender = lit ''Male''\<rparr>,
      \<lparr>e_country = lit ''Unknown Country'', e_discipline = lit ''Judo'', e_gender = lit ''Male''\<rparr>]"
  by (simp add: final_of_def eval_rows)

lemma unknown_country_gender:
  "clean (gender \<lparr>country = None, disciplines = Some (lit ''Judo''), gender = Some (lit ''Male'')\<rparr>)
     (lit ''Unknown'') = lit ''Male''"
  by (simp add: eval_rows)

theorem blank_country_is_unknown_witness:
  "\<lparr>country = None, disciplines = Some (lit ''Judo''), gender = Some (lit ''Male'')\<rparr>
     \<in> set [\<lparr>country = Some (lit ''USA''), disciplines = Some (lit ''Swimming''), gender = Some (lit ''Male'')\<rparr>,
             \<lparr>country = None, disciplines = Some (lit ''Judo''), gender = Some (lit ''Male'')\<rparr>] \<and>
   trim (case country \<lparr>country = None, disciplines = Some (lit ''Judo''), gender = Some (lit ''Male'')\<rparr>
         of None \<Rightarrow> [] | Some x \<Rightarrow> x) = [] \<and>
   has (topCountrySet (cleaned
     [\<lparr>country = Some (lit ''USA''), disciplines = Some (lit ''Swimming''), gender = Some (lit ''Male'')\<rparr>,
      \<lparr>country = None, disciplines = Some (lit ''Judo''), gender = Some (lit ''Male'')\<rparr>]) 12)
     (lit ''Unknown Country'') \<and>
   \<lparr>e_country = lit ''Unknown Country'', e_discipline = lit ''Judo'', e_gender = lit ''Male''\<rparr>
     \<in> set (final_of
         [\<lparr>country = Some (lit ''USA''), disciplines = Some (lit ''Swimming''), gender = Some (lit ''Male'')\<rparr>,
          \<lparr>country = None, disciplines = Some (lit ''Judo''), gender = Some (lit ''Male'')\<rparr>] 12 12 None) \<and>
   124 \<notin> set (lit ''Judo'') \<and>
   (\<exists>g. graph
          [\<lparr>country = Some (lit ''USA''), disciplines = Some (lit ''Swimming''), gender = Some (lit ''Male'')\<rparr>,
           \<lparr>country = None, disciplines = Some (lit ''Judo''), gender = Some (lit ''Male'')\<rparr>]
          12 12 None = Inr g \<and>
        (\<exists>i < length (nodes g). name (nodes g ! i) = lit ''C: Unknown Country'' \<and>
           (\<exists>l \<in> set (links g). source l = Some i \<and> value l = 1 \<and>
              (\<exists>j < length (nodes g). name (nodes g ! j) = lit ''D: Judo'' \<and> target l = Some j))))"
proof -
  let ?r = "\<lparr>country = None, disciplines = Some (lit ''Judo''), gender = Some (lit ''Male'')\<rparr>"
  let ?data = "[\<lparr>country = Some (lit ''USA''), disciplines = Some (lit ''Swimming''), gender = Some (lit ''Male'')\<rparr>, ?r]"
  let ?UC = "lit ''Unknown Country''"
  let ?row = "\<lparr>e_country = ?UC, e_discipline = lit ''Judo'', e_gender = lit ''Male''\<rparr>"
  let ?final = "final_of ?data 12 12 None"
  have r: "?r \<in> set ?data" by simp
  have blank: "trim (case country ?r of None \<Rightarrow> [] | Some x \<Rightarrow> x) = []"
    by (simp add: trim_def)
  have nofocus: "\<not> truthy None" by (simp add: truthy_def)
  have judo: "lit ''Judo'' \<in> set (splitDisciplines (clean (disciplines ?r) (lit ''Unknown Discipline'')))"
    by (simp only: unknown_country_discipline) simp
  have nobar: "124 \<notin> set (lit ''Judo'')" by (simp add: lit_def)
  have dj: "lit ''D: '' @ lit ''Judo'' = lit ''D: Judo''" by (simp add: lit_def)
  have one: "length (filter (\<lambda>e. e_country e = ?UC \<and> e_discipline e = lit ''Judo'') ?final) = 1"
    by (simp only: final_unknown_country) (simp add: lit_def)
  have "\<exists>g. graph ?data 12 12 None = Inr g \<and>
          (\<forall>d \<in> set (splitDisciplines (clean (disciplines ?r) (lit ''Unknown Discipline''))).
               (\<lparr>e_country = ?UC, e_discipline = d, e_gender = clean (gender ?r) (lit ''Unknown'')\<rparr>
                  \<in> set ?final
                \<longleftrightarrow> (if truthy None then None = Some ?UC
                     else has (topCountrySet (cleaned ?data) 12) ?UC) \<and>
                    has (topDiscSet (exploded (filteredCountries (base (cleaned ?data) None) 12 None)) 12) d) \<and>
               (\<lparr>e_country = ?UC, e_discipline = d, e_gender = clean (gender ?r) (lit ''Unknown'')\<rparr>
                  \<in> set ?final
                \<longrightarrow> (\<exists>i < length (nodes g). name (nodes g ! i) = lit ''C: Unknown Country'' \<and>
                      (\<exists>l \<in> set (links g). source l = Some i \<and> 1 \<le> value l \<and>
                         length (filter (\<lambda>e. e_country e = ?UC \<and> e_discipline e = d) ?final) \<le> value l \<and>
                         (124 \<notin> set d \<longrightarrow>
                            value l = length (filter (\<lambda>e. e_country e = ?UC \<and> e_discipline e = d) ?final) \<and>
                            (\<exists>j < length (nodes g). name (nodes g ! j) = lit ''D: '' @ d \<and>
                               target l = Some j))))))"
    using blank_country_is_unknown[OF r blank, of 12 12 None] by (rule conjunct2)
  then obtain g where gg: "graph ?data 12 12 None = Inr g \<and>
          (\<forall>d \<in> set (splitDisciplines (clean (disciplines ?r) (lit ''Unknown Discipline''))).
               (\<lparr>e_country = ?UC, e_discipline = d, e_gender = clean (gender ?r) (lit ''Unknown'')\<rparr>
                  \<in> set ?final
                \<longleftrightarrow> (if truthy None then None = Some ?UC
                     else has (topCountrySet (cleaned ?data) 12) ?UC) \<and>
                    has (topDiscSet (exploded (filteredCountries (base (cleaned ?data) None) 12 None)) 12) d) \<and>
               (\<lparr>e_country = ?UC, e_discipline = d, e_gender = clean (gender ?r) (lit ''Unknown'')\<rparr>
                  \<in> set ?final
                \<longrightarrow> (\<exists>i < length (nodes g). name (nodes g ! i) = lit ''C: Unknown Country'' \<and>
                      (\<exists>l \<in> set (links g). source l = Some i \<and> 1 \<le> value l \<and>
                         length (filter (\<lambda>e. e_country e = ?UC \<and> e_discipline e = d) ?final) \<le> value l \<and>
                         (124 \<notin> set d \<longrightarrow>
                            value l = length (filter (\<lambda>e. e_country e = ?UC \<and> e_discipline e = d) ?final) \<and>
                            (\<exists>j < length (nodes g). name (nodes g ! j) = lit ''D: '' @ d \<and>
                               target l = Some j))))))" ..
  then have g: "graph ?data 12 12 None = Inr g" by (rule conjunct1)
  from gg have "\<forall>d \<in> set (splitDisciplines (clean (disciplines ?r) (lit ''Unknown Discipline''))).
               (\<lparr>e_country = ?UC, e_discipline = d, e_gender = clean (gender ?r) (lit ''Unknown'')\<rparr>
                  \<in> set ?final
                \<longleftrightarrow> (if truthy None then None = Some ?UC
                     else has (topCountrySet (cleaned ?data) 12) ?UC) \<and>
                    has (topDiscSet (exploded (filteredCountries (base (cleaned ?data) None) 12 None)) 12) d) \<and>
               (\<lparr>e_country = ?UC, e_discipline = d, e_gender = clean (gender ?r) (lit ''Unknown'')\<rparr>
                  \<in> set ?final
                \<longrightarrow> (\<exists>i < length (nodes g). name (nodes g ! i) = lit ''C: Unknown Country'' \<and>
                      (\<exists>l \<in> set (links g). source l = Some i \<and> 1 \<le> value l \<and>
                         length (filter (\<lambda>e. e_country e = ?UC \<and> e_discipline e = d) ?final) \<le> value l \<and>
                         (124 \<notin> set d \<longrightarrow>
                            value l = length (filter (\<lambda>e. e_country e = ?UC \<and> e_discipline e = d) ?final) \<and>
                            (\<exists>j < length (nodes g). name (nodes g ! j) = lit ''D: '' @ d \<and>
                               target l = Some j)))))"
    by (rule conjunct2)
  from this judo have both:
    "(\<lparr>e_country = ?UC, e_discipline = lit ''Judo'', e_gender = clean (gender ?r) (lit ''Unknown'')\<rparr>
        \<in> set ?final
      \<longleftrightarrow> (if truthy None then None = Some ?UC
           else has (topCountrySet (cleaned ?data) 12) ?UC) \<and>
          has (topDiscSet (exploded (filteredCountries (base (cleaned ?data) None) 12 None)) 12) (lit ''Judo'')) \<and>
     (\<lparr>e_country = ?UC, e_discipline = lit ''Judo'', e_gender = clean (gender ?r) (lit ''Unknown'')\<rparr>
        \<in> set ?final
      \<longrightarrow> (\<exists>i < length (nodes g). name (nodes g ! i) = lit ''C: Unknown Country'' \<and>
            (\<exists>l \<in> set (links g). source l = Some i \<and> 1 \<le> value l \<and>
               length (filter (\<lambda>e. e_country e = ?UC \<and> e_discipline e = lit ''Judo'') ?final) \<le> value l \<and>
               (124 \<notin> set (lit ''Judo'') \<longrightarrow>
                  value l = length (filter (\<lambda>e. e_country e = ?UC \<and> e_discipline e = lit ''Judo'') ?final) \<and>
                  (\<exists>j < length (nodes g). name (nodes g ! j) = lit ''D: '' @ lit ''Judo'' \<and>
                     target l = Some j)))))"
    by (rule bspec)
  from both have kept_iff: "?row \<in> set ?final
      \<longleftrightarrow> (if truthy None then None = Some ?UC
           else has (topCountrySet (cleaned ?data) 12) ?UC) \<and>
          has (topDiscSet (exploded (filteredCountries (base (cleaned ?data) None) 12 None)) 12) (lit ''Judo'')"
    unfolding unknown_country_gender by (rule conjunct1)
  have kept: "?row \<in> set ?final"
    unfolding kept_iff using nofocus unknown_country_in_top unknown_country_discipline_in_top
    by (simp only: if_False simp_thms)
  from both have "?row \<in> set ?final
      \<longrightarrow> (\<exists>i < length (nodes g). name (nodes g ! i) = lit ''C: Unknown Country'' \<and>
            (\<exists>l \<in> set (links g). source l = Some i \<and> 1 \<le> value l \<and>
               length (filter (\<lambda>e. e_country e = ?UC \<and> e_discipline e = lit ''Judo'') ?final) \<le> value l \<and>
               (124 \<notin> set (lit ''Judo'') \<longrightarrow>
                  value l = length (filter (\<lambda>e. e_country e = ?UC \<and> e_discipline e = lit ''Judo'') ?final) \<and>
                  (\<exists>j < length (nodes g). name (nodes g ! j) = lit ''D: '' @ lit ''Judo'' \<and>
                     target l = Some j))))"
    unfolding unknown_country_gender by (rule conjunct2)
  with kept have "\<exists>i < length (nodes g). name (nodes g ! i) = lit ''C: Unknown Country'' \<and>
            (\<exists>l \<in> set (links g). source l = Some i \<and> 1 \<le> value l \<and>
               length (filter (\<lambda>e. e_country e = ?UC \<and> e_discipline e = lit ''Judo'') ?final) \<le> value l \<and>
               (124 \<notin> set (lit ''Judo'') \<longrightarrow>
                  value l = length (filter (\<lambda>e. e_country e = ?UC \<and> e_discipline e = lit ''Judo'') ?final) \<and>
                  (\<exists>j < length (nodes g). name (nodes g ! j) = lit ''D: '' @ lit ''Judo'' \<and>
                     target l = Some j)))"
    by (rule rev_mp)
  then have "\<exists>i < length (nodes g). name (nodes g ! i) = lit ''C: Unknown Country'' \<and>
            (\<exists>l \<in> set (links g). source l = Some i \<and> value l = 1 \<and>
               (\<exists>j < length (nodes g). name (nodes g ! j) = lit ''D: Judo'' \<and> target l = Some j))"
    using nobar unfolding one dj by (simp only: simp_thms) auto
  with g have "\<exists>g. graph ?data 12 12 None = Inr g \<and>
        (\<exists>i < length (nodes g). name (nodes g ! i) = lit ''C: Unknown Country'' \<and>
           (\<exists>l \<in> set (links g). source l = Some i \<and> value l = 1 \<and>
              (\<exists>j < length (nodes g). name (nodes g ! j) = lit ''D: Judo'' \<and> target l = Some j)))"
    by (intro exI[of _ g] conjI)
  with r blank unknown_country_in_top kept nobar show ?thesis by (intro conjI)
qed


text \<open>The path for quoted items is in the scatter chart, whose discipline does not reach
  the graph of the Sankey chart.\<close>

lemma parseDisciplinesField_quoted_list:
  "parseDisciplinesField (Some ([91, 39] @ lit ''Freestyle'' @ [39, 44, 32, 39] @ lit ''Relay'' @ [39, 93]))
     = lit ''Freestyle, Relay''"
  by (simp add: eval_explode)





lemma graph_of_rows_Nil: "graph_of_rows [] = Inr \<lparr>nodes = [], links = []\<rparr>"
  by (simp add: graph_of_rows_def linksMap_Nil linksNamed_Nil order_nodes_Nil index_links_Nil)

lemma rows_focus_absent:
  "finalRows (exploded (filteredCountries (base (cleaned
     [\<lparr>country = Some (lit ''USA''), disciplines = Some (lit ''Swimming''), gender = Some (lit ''Male'')\<rparr>])
     (Some (lit ''FRA''))) 12 (Some (lit ''FRA'')))) 12 = []"
  by (simp add: eval_rows)

text \<open>
  C3 as stated fails: a focus that no record has gives no country node, where the
  claim asks for exactly one. One record of \<open>USA\<close> under the focus \<open>FRA\<close> gives the
  empty graph.
\<close>

theorem focus_absent_no_country_node:
  "graph [\<lparr>country = Some (lit ''USA''), disciplines = Some (lit ''Swimming''), gender = Some (lit ''Male'')\<rparr>]
     12 12 (Some (lit ''FRA''))
   = Inr \<lparr>nodes = [], links = []\<rparr>"
  by (simp only: graph_unfold rows_focus_absent graph_of_rows_Nil)

lemma focus_rows_and_tier:
  assumes F: "F \<noteq> []"
  shows "filteredCountries (base (cleaned data) (Some F)) tc (Some F)
           = filter (\<lambda>d. c_country d = F) (cleaned data) \<and>
         graph data tc td (Some F)
           = graph_of_rows (finalRows (exploded (filter (\<lambda>d. c_country d = F) (cleaned data))) td) \<and>
         graph data tc td (Some F) = graph data tc' td (Some F) \<and>
         graph data tc td (Some []) = graph data tc td None \<and>
         (124 \<notin> set F \<longrightarrow>
            (\<exists>g. graph data tc td (Some F) = Inr g \<and>
               map name (filter (\<lambda>n. startsWith (name n) (lit ''C: '')) (nodes g))
                 = (if final_of data tc td (Some F) = [] then [] else [lit ''C: '' @ F]))) \<and>
         (124 \<notin> set F \<and> 1 \<le> td \<longrightarrow>
            (\<exists>g. graph data tc td (Some F) = Inr g \<and>
               map name (filter (\<lambda>n. startsWith (name n) (lit ''C: '')) (nodes g))
                 = (if \<exists>r \<in> set data. clean (country r) (lit ''Unknown Country'') = F
                    then [lit ''C: '' @ F] else [])))"
proof -
  let ?W = "filter (\<lambda>d. c_country d = F) (cleaned data)"
  let ?final = "finalRows (exploded ?W) td"
  let ?g = "index_links (ordered_of ?final) (linksNamed (linksMap ?final))"
  have W: "filteredCountries (base (cleaned data) (Some F)) tc' (Some F) = ?W" for tc'
    using F by (simp add: filteredCountries_def base_def truthy_def)
  have fin: "final_of data tc td (Some F) = ?final"
    by (simp only: final_of_def W)
  have gr: "graph data tc' td (Some F) = graph_of_rows ?final" for tc'
    by (simp only: graph_unfold W)
  have g: "graph data tc td (Some F) = Inr ?g"
    by (simp only: gr graph_of_rows_Inr)
  have nofocus: "graph data tc td (Some []) = graph data tc td None"
    by (simp add: graph_def base_def filteredCountries_def truthy_def)
  have rows: "\<forall>e \<in> set ?final. e_country e = F \<and>
                (124 \<notin> set (e_discipline e) \<or> 67 \<notin> set (e_discipline e))"
  proof
    fix e assume "e \<in> set ?final"
    with set_finalRows have e: "e \<in> set (exploded ?W)" by blast
    from exploded_country[OF e] have "e_country e = F" by auto
    moreover from exploded_discipline[OF e] splitDisciplines_bar_or_C
    have "124 \<notin> set (e_discipline e) \<or> 67 \<notin> set (e_discipline e)" by blast
    ultimately show "e_country e = F \<and>
                (124 \<notin> set (e_discipline e) \<or> 67 \<notin> set (e_discipline e))" ..
  qed
  have ne: "?final \<noteq> [] \<longleftrightarrow> (\<exists>r \<in> set data. clean (country r) (lit ''Unknown Country'') = F)"
    if td: "1 \<le> td"
  proof
    assume "?final \<noteq> []"
    then obtain e where "e \<in> set ?final" by (cases ?final) auto
    with set_finalRows have "e \<in> set (exploded ?W)" by blast
    from exploded_country[OF this] obtain cr where "cr \<in> set (cleaned data)" "c_country cr = F"
      by auto
    then show "\<exists>r \<in> set data. clean (country r) (lit ''Unknown Country'') = F"
      by (auto simp: cleaned_def)
  next
    assume "\<exists>r \<in> set data. clean (country r) (lit ''Unknown Country'') = F"
    then have "\<exists>cr \<in> set (cleaned data). c_country cr = F"
      by (force simp: cleaned_def)
    then have "?W \<noteq> []" by (auto simp: filter_empty_conv)
    then have "exploded ?W \<noteq> []" by (rule exploded_not_Nil)
    with td show "?final \<noteq> []" by (rule finalRows_not_Nil)
  qed
  have names: "map name (filter (\<lambda>n. startsWith (name n) (lit ''C: '')) (nodes ?g))
          = filter (\<lambda>n. startsWith n (lit ''C: '')) (ordered_of ?final)"
    by (simp only: nodes_index_links filter_nodes_names)
  have tier0: "map name (filter (\<lambda>n. startsWith (name n) (lit ''C: '')) (nodes ?g))
      = (if final_of data tc td (Some F) = [] then [] else [lit ''C: '' @ F])"
    if nobar: "124 \<notin> set F"
  proof -
    have "filter (\<lambda>n. startsWith n (lit ''C: '')) (ordered_of ?final)
            = (if ?final = [] then [] else [lit ''C: '' @ F])"
      using rows nobar by (rule country_tier_of_focus)
    then show ?thesis by (simp only: names fin)
  qed
  have tier: "map name (filter (\<lambda>n. startsWith (name n) (lit ''C: '')) (nodes ?g))
      = (if \<exists>r \<in> set data. clean (country r) (lit ''Unknown Country'') = F
         then [lit ''C: '' @ F] else [])"
    if nobar: "124 \<notin> set F" and td: "1 \<le> td"
    using tier0[OF nobar] ne[OF td] by (simp only: fin) auto
  show ?thesis
  proof (intro conjI impI)
    show "filteredCountries (base (cleaned data) (Some F)) tc (Some F) = ?W" by (rule W)
    show "graph data tc td (Some F) = graph_of_rows ?final" by (rule gr)
    show "graph data tc td (Some F) = graph data tc' td (Some F)" by (simp only: gr)
    show "graph data tc td (Some []) = graph data tc td None" by (rule nofocus)
    show "\<exists>g. graph data tc td (Some F) = Inr g \<and>
            map name (filter (\<lambda>n. startsWith (name n) (lit ''C: '')) (nodes g))
              = (if final_of data tc td (Some F) = [] then [] else [lit ''C: '' @ F])"
      if "124 \<notin> set F"
      using g tier0[OF that] by (intro exI[of _ ?g] conjI)
    show "\<exists>g. graph data tc td (Some F) = Inr g \<and>
            map name (filter (\<lambda>n. startsWith (name n) (lit ''C: '')) (nodes g))
              = (if \<exists>r \<in> set data. clean (country r) (lit ''Unknown Country'') = F
                 then [lit ''C: '' @ F] else [])"
      if "124 \<notin> set F \<and> 1 \<le> td"
      using g tier[of] that by (intro exI[of _ ?g] conjI) auto
  qed
qed

text \<open>
  C3, as amended. The empty string as focus is no focus: the graph is the one without a
  focus. Under a focus \<open>F\<close> that is not the empty string, the rows that reach the
  exploder are the cleaned rows whose country is \<open>F\<close>, by equality of strings; the top
  disciplines are selected among the exploded rows of these; and \<open>topCountries\<close> is not
  read. When \<open>F\<close> has no bar, the graph is computed without error and its country tier
  is the one node \<open>C: F\<close> when a final row is left, and is empty otherwise; with
  \<open>topDisciplines\<close> at least 1 a final row is left exactly when some record has the
  cleaned country \<open>F\<close>.
\<close>

theorem focus_country_tier:
  "graph data tc td (Some []) = graph data tc td None \<and>
   (F \<noteq> [] \<longrightarrow>
      filteredCountries (base (cleaned data) (Some F)) tc (Some F)
           = filter (\<lambda>d. c_country d = F) (cleaned data) \<and>
      graph data tc td (Some F)
           = graph_of_rows (finalRows (exploded (filter (\<lambda>d. c_country d = F) (cleaned data))) td) \<and>
      graph data tc td (Some F) = graph data tc' td (Some F) \<and>
      (124 \<notin> set F \<longrightarrow>
            (\<exists>g. graph data tc td (Some F) = Inr g \<and>
               map name (filter (\<lambda>n. startsWith (name n) (lit ''C: '')) (nodes g))
                 = (if final_of data tc td (Some F) = [] then [] else [lit ''C: '' @ F]))) \<and>
      (124 \<notin> set F \<and> 1 \<le> td \<longrightarrow>
            (\<exists>g. graph data tc td (Some F) = Inr g \<and>
               map name (filter (\<lambda>n. startsWith (name n) (lit ''C: '')) (nodes g))
                 = (if \<exists>r \<in> set data. clean (country r) (lit ''Unknown Country'') = F
                    then [lit ''C: '' @ F] else []))))"
proof (intro conjI impI)
  assume F: "F \<noteq> []"
  note t = focus_rows_and_tier[OF F, of data tc td tc']
  note tA = t[THEN conjunct1]
  note tB = t[THEN conjunct2, THEN conjunct1]
  note tC = t[THEN conjunct2, THEN conjunct2, THEN conjunct1]
  note tE = t[THEN conjunct2, THEN conjunct2, THEN conjunct2, THEN conjunct2, THEN conjunct1]
  note tG = t[THEN conjunct2, THEN conjunct2, THEN conjunct2, THEN conjunct2, THEN conjunct2]
  show "filteredCountries (base (cleaned data) (Some F)) tc (Some F)
           = filter (\<lambda>d. c_country d = F) (cleaned data)"
    by (rule tA)
  show "graph data tc td (Some F)
           = graph_of_rows (finalRows (exploded (filter (\<lambda>d. c_country d = F) (cleaned data))) td)"
    by (rule tB)
  show "graph data tc td (Some F) = graph data tc' td (Some F)"
    by (rule tC)
  show "\<exists>g. graph data tc td (Some F) = Inr g \<and>
               map name (filter (\<lambda>n. startsWith (name n) (lit ''C: '')) (nodes g))
                 = (if final_of data tc td (Some F) = [] then [] else [lit ''C: '' @ F])"
    if "124 \<notin> set F"
    using tE that by (rule mp)
  show "\<exists>g. graph data tc td (Some F) = Inr g \<and>
               map name (filter (\<lambda>n. startsWith (name n) (lit ''C: '')) (nodes g))
                 = (if \<exists>r \<in> set data. clean (country r) (lit ''Unknown Country'') = F
                    then [lit ''C: '' @ F] else [])"
    if "124 \<notin> set F \<and> 1 \<le> td"
    using tG that by (rule mp)
next
  show "graph data tc td (Some []) = graph data tc td None"
    by (simp add: graph_def base_def filteredCountries_def truthy_def)
qed

lemma focus_present:
  "\<exists>r \<in> set [\<lparr>country = Some (lit ''USA''), disciplines = Some (lit ''Swimming''), gender = Some (lit ''Male'')\<rparr>,
                \<lparr>country = Some (lit ''FRA''), disciplines = Some (lit ''Judo''), gender = Some (lit ''Female'')\<rparr>].
     clean (country r) (lit ''Unknown Country'') = lit ''USA''"
  by (simp add: clean_def trim_def is_ws_def lit_def)

theorem focus_country_tier_witness:
  "lit ''USA'' \<noteq> [] \<and> 124 \<notin> set (lit ''USA'') \<and> (1::int) \<le> 12 \<and>
   (\<exists>g. graph
          [\<lparr>country = Some (lit ''USA''), disciplines = Some (lit ''Swimming''), gender = Some (lit ''Male'')\<rparr>,
           \<lparr>country = Some (lit ''FRA''), disciplines = Some (lit ''Judo''), gender = Some (lit ''Female'')\<rparr>]
          0 12 (Some (lit ''USA'')) = Inr g \<and>
        map name (filter (\<lambda>n. startsWith (name n) (lit ''C: '')) (nodes g)) = [lit ''C: USA''])"
proof -
  let ?data = "[\<lparr>country = Some (lit ''USA''), disciplines = Some (lit ''Swimming''), gender = Some (lit ''Male'')\<rparr>,
           \<lparr>country = Some (lit ''FRA''), disciplines = Some (lit ''Judo''), gender = Some (lit ''Female'')\<rparr>]"
  have F: "lit ''USA'' \<noteq> []" by (simp add: lit_def)
  have nobar: "124 \<notin> set (lit ''USA'')" by (simp add: lit_def)
  have td: "(1::int) \<le> 12" by simp
  have l: "lit ''C: '' @ lit ''USA'' = lit ''C: USA''" by (simp add: lit_def)
  note t = focus_country_tier[of ?data 0 12 "lit ''USA''" 0, THEN conjunct2, THEN mp, OF F]
  note tG = t[THEN conjunct2, THEN conjunct2, THEN conjunct2, THEN conjunct2]
  have "124 \<notin> set (lit ''USA'') \<and> (1::int) \<le> 12 \<longrightarrow> (\<exists>g. graph ?data 0 12 (Some (lit ''USA'')) = Inr g \<and>
            map name (filter (\<lambda>n. startsWith (name n) (lit ''C: '')) (nodes g))
              = (if \<exists>r \<in> set ?data. clean (country r) (lit ''Unknown Country'') = lit ''USA''
                 then [lit ''C: '' @ lit ''USA''] else []))"
    by (rule tG)
  moreover have "124 \<notin> set (lit ''USA'') \<and> (1::int) \<le> 12"
    using nobar td by (rule conjI)
  ultimately have "\<exists>g. graph ?data 0 12 (Some (lit ''USA'')) = Inr g \<and>
            map name (filter (\<lambda>n. startsWith (name n) (lit ''C: '')) (nodes g))
              = (if \<exists>r \<in> set ?data. clean (country r) (lit ''Unknown Country'') = lit ''USA''
                 then [lit ''C: '' @ lit ''USA''] else [])"
    by (rule mp)
  then have "\<exists>g. graph ?data 0 12 (Some (lit ''USA'')) = Inr g \<and>
            map name (filter (\<lambda>n. startsWith (name n) (lit ''C: '')) (nodes g)) = [lit ''C: USA'']"
    by (simp only: focus_present if_True l)
  with F nobar td show ?thesis by (intro conjI)
qed

end
